theory Spec2Isabelle
  imports Complex_Main
begin

section \<open>Platform and file system\<close>

text \<open>
  The main process of the clip manager (\<^verbatim>\<open>src/unnamed/part_000\<close>) and its database module
  (\<^verbatim>\<open>src/src/main/database.ts\<close>) are written against Node's \<^verbatim>\<open>crypto\<close>, \<^verbatim>\<open>path\<close>, \<^verbatim>\<open>os\<close>
  and \<^verbatim>\<open>JSON\<close> modules. Those are library code, not code of the repository, so the model takes
  them as the fields of one record. A digest object that is fed by several \<^verbatim>\<open>update\<close> calls
  hashes the concatenation of the chunks, so \<open>sha1\<close> and \<open>sha256\<close> take the concatenation and
  return the hexadecimal digest. JavaScript numbers that are not counters (times, durations,
  trim bounds) are modelled as \<open>real\<close>; \<open>String\<close> is JavaScript's number-to-string conversion,
  \<open>basename_noext p\<close> is \<^verbatim>\<open>path.basename(p, path.extname(p))\<close> and \<open>extname_lower p\<close> is
  \<^verbatim>\<open>path.extname(p).toLowerCase()\<close>.
\<close>

record node =
  sha1 :: "string \<Rightarrow> string"
  sha256 :: "string \<Rightarrow> string"
  String :: "real \<Rightarrow> string"
  basename_noext :: "string \<Rightarrow> string"
  extname_lower :: "string \<Rightarrow> string"
  join :: "string list \<Rightarrow> string"
  tmpdir :: string
  JSON_parse :: "string \<Rightarrow> string option"
  JSON_stringify :: "string \<Rightarrow> string"

text \<open>
  A file has a modification time and a content; its size is the length of the content
  (a \<open>char\<close> is a byte). The file system maps a path to the file stored there.
\<close>

record fnode =
  mtimeMs :: real
  data :: string

type_synonym filesys = "string \<rightharpoonup> fnode"

record stats =
  st_mtimeMs :: real
  st_size :: nat

datatype error =
    ENOENT string
  | ProbeFailed string
  | ThumbnailTimeout
  | ExtractionFailed nat string
  | InvalidFiles
  | ExportFailed string string
  | FirstPassNoLog
  | FirstPassFailed string string
  | LogNotFound
  | LogTooSmall nat
  | SecondPassFailed string string

text \<open>\<^verbatim>\<open>fs.statSync\<close> throws when the path does not exist; \<^verbatim>\<open>fs.existsSync\<close> never throws.\<close>

definition statSync :: "filesys \<Rightarrow> string \<Rightarrow> error + stats" where
  "statSync fs p =
     (case fs p of
        None \<Rightarrow> Inl (ENOENT p)
      | Some f \<Rightarrow> Inr \<lparr>st_mtimeMs = mtimeMs f, st_size = length (data f)\<rparr>)"

definition existsSync :: "filesys \<Rightarrow> string \<Rightarrow> bool" where
  "existsSync fs p = (case fs p of None \<Rightarrow> False | Some f \<Rightarrow> True)"

text \<open>
  A stand-in platform for evaluating the model on concrete inputs: the digests are the
  identity, numbers print as a few fixed strings, paths are joined with a slash.
\<close>

definition show_real :: "real \<Rightarrow> string" where
  "show_real x =
     (if x = 0 then ''0'' else if x = 1 then ''1'' else if x = 2 then ''2''
      else if x = 5 then ''5'' else ''n'')"

fun join_slash :: "string list \<Rightarrow> string" where
  "join_slash [] = ''.''"
| "join_slash [p] = p"
| "join_slash (p # q # ps) = p @ ''/'' @ join_slash (q # ps)"

definition stub_node :: node where
  "stub_node =
     \<lparr>sha1 = (\<lambda>s. s), sha256 = (\<lambda>s. s), String = show_real,
      basename_noext = (\<lambda>p. ''clip''),
      extname_lower = (\<lambda>p. drop (length p - 4) p), join = join_slash, tmpdir = ''/tmp'',
      JSON_parse = (\<lambda>s. if s = [] then None else Some s), JSON_stringify = (\<lambda>m. m)\<rparr>"

section \<open>Content identity\<close>

text \<open>
  \<^verbatim>\<open>calculatePartialHash\<close> (database.ts, lines 78 to 111) opens the file, reads at most
  \<open>CHUNK_SIZE\<close> bytes from position 0 and hashes the bytes read, then \<^verbatim>\<open>String(fileSize)\<close>, then
  \<^verbatim>\<open>String(duration || 0)\<close>. The promise is rejected when the file cannot be opened. A duration
  of \<^verbatim>\<open>null\<close> is \<open>None\<close>; \<^verbatim>\<open>duration || 0\<close> turns \<^verbatim>\<open>null\<close> (and 0) into 0.
\<close>

definition CHUNK_SIZE :: nat where
  "CHUNK_SIZE = 64 * 1024"

definition or_zero :: "real option \<Rightarrow> real" where
  "or_zero d = (case d of None \<Rightarrow> 0 | Some x \<Rightarrow> x)"

definition calculatePartialHash ::
  "node \<Rightarrow> filesys \<Rightarrow> string \<Rightarrow> nat \<Rightarrow> real option \<Rightarrow> error + string" where
  "calculatePartialHash N fs filepath fileSize duration =
     (case fs filepath of
        None \<Rightarrow> Inl (ENOENT filepath)
      | Some f \<Rightarrow>
          Inr (sha256 N (take CHUNK_SIZE (data f)
                          @ String N (real fileSize)
                          @ String N (or_zero duration))))"

text \<open>
  \<^verbatim>\<open>getVideoDuration\<close> (lines 116 to 126) never rejects: a probe error, or a missing or zero
  duration in the probe's answer, gives \<^verbatim>\<open>null\<close>. The probe is the external engine; its answer
  for a path is the parameter \<open>probe\<close> (\<open>None\<close> when the engine reports an error).
\<close>

definition getVideoDuration :: "(string \<Rightarrow> real option) \<Rightarrow> string \<Rightarrow> real option" where
  "getVideoDuration probe filepath =
     (case probe filepath of
        None \<Rightarrow> None
      | Some d \<Rightarrow> if d = 0 then None else Some d)"

text \<open>
  \<^verbatim>\<open>getClipHash\<close> (lines 131 to 136): the optional argument is \<^verbatim>\<open>undefined\<close> (\<open>None\<close>),
  \<^verbatim>\<open>null\<close> (\<open>Some None\<close>) or a number. \<open>clipDuration\<close> is the value of the local \<^verbatim>\<open>dur\<close>.
\<close>

definition clipDuration ::
  "(string \<Rightarrow> real option) \<Rightarrow> string \<Rightarrow> real option option \<Rightarrow> real option" where
  "clipDuration probe filepath duration =
     (case duration of
        Some d \<Rightarrow> d
      | None \<Rightarrow> getVideoDuration probe filepath)"

definition getClipHash ::
  "node \<Rightarrow> filesys \<Rightarrow> (string \<Rightarrow> real option) \<Rightarrow> string \<Rightarrow> real option option
     \<Rightarrow> error + string" where
  "getClipHash N fs probe filepath duration =
     (case statSync fs filepath of
        Inl e \<Rightarrow> Inl e
      | Inr st \<Rightarrow>
          calculatePartialHash N fs filepath (st_size st) (clipDuration probe filepath duration))"

section \<open>Cache paths\<close>

text \<open>
  \<^verbatim>\<open>computeMetaCachePath\<close> (part_000, lines 423 to 440) and \<^verbatim>\<open>computeCachedThumbPath\<close>
  (lines 521 to 550) wrap the \<^verbatim>\<open>statSync\<close> call in \<^verbatim>\<open>try\<close>; the \<^verbatim>\<open>catch\<close> block builds the
  file name from the path string alone. The result type keeps an error alternative so that
  "the function fails" can be said of the model. \<^verbatim>\<open>getThumbCacheDir\<close> also creates the
  directory when it is missing; directories are not part of \<open>filesys\<close>.
\<close>

definition computeMetaCachePath :: "node \<Rightarrow> filesys \<Rightarrow> string \<Rightarrow> error + string" where
  "computeMetaCachePath N fs videoPath =
     (case statSync fs videoPath of
        Inr st \<Rightarrow>
          Inr (join N [tmpdir N, ''vcm-meta'',
                 basename_noext N videoPath @ ''-''
                 @ take 16 (sha1 N (videoPath @ String N (st_mtimeMs st)
                                      @ String N (real (st_size st))))
                 @ ''.json''])
      | Inl e \<Rightarrow>
          Inr (join N [tmpdir N, ''vcm-meta'',
                 basename_noext N videoPath @ ''-''
                 @ take 16 (sha1 N videoPath)
                 @ ''.json'']))"

definition getThumbCacheDir :: "node \<Rightarrow> string" where
  "getThumbCacheDir N = join N [tmpdir N, ''vcm-thumbs'']"

definition trim_suffix :: "node \<Rightarrow> real option \<Rightarrow> real option \<Rightarrow> string" where
  "trim_suffix N trimStart trimEnd =
     (case trimStart of
        None \<Rightarrow> []
      | Some ts \<Rightarrow>
          (case trimEnd of
             None \<Rightarrow> []
           | Some te \<Rightarrow> ''trim-'' @ String N ts @ ''-'' @ String N te))"

definition computeCachedThumbPath ::
  "node \<Rightarrow> filesys \<Rightarrow> string \<Rightarrow> real option \<Rightarrow> real option \<Rightarrow> error + string" where
  "computeCachedThumbPath N fs videoPath trimStart trimEnd =
     (case statSync fs videoPath of
        Inr st \<Rightarrow>
          Inr (join N [getThumbCacheDir N,
                 basename_noext N videoPath @ ''-''
                 @ take 16 (sha1 N (videoPath @ String N (st_mtimeMs st)
                                      @ String N (real (st_size st))
                                      @ trim_suffix N trimStart trimEnd))
                 @ ''.jpg''])
      | Inl e \<Rightarrow>
          Inr (join N [getThumbCacheDir N,
                 basename_noext N videoPath @ ''-''
                 @ take 16 (sha1 N (videoPath @ trim_suffix N trimStart trimEnd))
                 @ ''.jpg'']))"

section \<open>Thumbnail cache lookup\<close>

text \<open>
  The first part of the \<^verbatim>\<open>get-cached-thumbnail\<close> handler (lines 552 to 579) decides between a
  cache hit, the file under the older key without trim data, and a miss that goes on
  to the generation task. \<^verbatim>\<open>!trimStart\<close> holds for \<^verbatim>\<open>undefined\<close> and for the number 0.
  \<open>trim_active\<close> is the test the same handler makes at line 595, where it uses the start
  of the trim as the capture timestamp.
\<close>

datatype lookup = CacheHit string | OldCacheHit string | Miss string

definition falsy :: "real option \<Rightarrow> bool" where
  "falsy x = (case x of None \<Rightarrow> True | Some v \<Rightarrow> v = 0)"

definition trim_active :: "real option \<Rightarrow> real option \<Rightarrow> bool" where
  "trim_active trimStart trimEnd =
     (case trimStart of
        None \<Rightarrow> False
      | Some ts \<Rightarrow> (case trimEnd of None \<Rightarrow> False | Some te \<Rightarrow> 0 \<le> ts \<and> ts < te))"

definition thumb_lookup ::
  "node \<Rightarrow> filesys \<Rightarrow> string \<Rightarrow> real option \<Rightarrow> real option \<Rightarrow> error + lookup" where
  "thumb_lookup N fs videoPath trimStart trimEnd =
     (case computeCachedThumbPath N fs videoPath trimStart trimEnd of
        Inl e \<Rightarrow> Inl e
      | Inr outPath \<Rightarrow>
          if existsSync fs outPath then Inr (CacheHit outPath)
          else
            (case computeCachedThumbPath N fs videoPath None None of
               Inl e \<Rightarrow> Inl e
             | Inr oldPath \<Rightarrow>
                 if existsSync fs oldPath \<and> (falsy trimStart \<or> falsy trimEnd)
                 then Inr (OldCacheHit oldPath)
                 else Inr (Miss outPath)))"

section \<open>Single-flight task maps\<close>

text \<open>
  \<^verbatim>\<open>thumbTasks\<close> (line 512) and \<^verbatim>\<open>audioExtractTasks\<close> (line 718) map a cache key to the promise
  of the computation in flight. The main process is single-threaded: a handler runs without
  interruption up to its next \<^verbatim>\<open>await\<close>, so a request and the settling of a promise are atomic
  steps on the map. A promise is named by a number; \<open>running\<close> lists the promises that have
  been created and have not settled yet, each with the key its \<^verbatim>\<open>finally\<close> block deletes.
\<close>

record flight =
  tasks :: "string \<rightharpoonup> nat"
  running :: "(nat \<times> string) list"
  next_id :: nat

definition no_flight :: flight where
  "no_flight = \<lparr>tasks = Map.empty, running = [], next_id = 0\<rparr>"

datatype reply = Served string | Awaits nat

text \<open>Creating the promise starts the computation; the map entry is set right after.\<close>

definition start_task :: "string \<Rightarrow> flight \<Rightarrow> reply \<times> flight" where
  "start_task k s =
     (Awaits (next_id s),
      s\<lparr>tasks := (tasks s)(k \<mapsto> next_id s),
        running := running s @ [(next_id s, k)],
        next_id := Suc (next_id s)\<rparr>)"

text \<open>Lines 581 to 650: \<^verbatim>\<open>thumbTasks.get(outPath)\<close>, a new task when there is none.\<close>

definition thumb_task :: "string \<Rightarrow> flight \<Rightarrow> reply \<times> flight" where
  "thumb_task outPath s =
     (case tasks s outPath of
        Some t \<Rightarrow> (Awaits t, s)
      | None \<Rightarrow> start_task outPath s)"

text \<open>The whole handler body after the lookup of lines 564 to 579 has been made.\<close>

definition thumb_request :: "lookup \<Rightarrow> flight \<Rightarrow> reply \<times> flight" where
  "thumb_request l s =
     (case l of
        CacheHit p \<Rightarrow> (Served p, s)
      | OldCacheHit p \<Rightarrow> (Served p, s)
      | Miss outPath \<Rightarrow> thumb_task outPath s)"

text \<open>
  When promise \<open>t\<close> settles (resolved, rejected or timed out), its \<^verbatim>\<open>finally\<close> block runs
  \<^verbatim>\<open>delete(key)\<close> with the key captured at creation (lines 640 to 645 for a thumbnail, lines
  484 to 486 for metadata).
\<close>

definition settle :: "nat \<Rightarrow> flight \<Rightarrow> flight" where
  "settle t s =
     (case map_of (running s) t of
        None \<Rightarrow> s
      | Some k \<Rightarrow>
          s\<lparr>tasks := (tasks s)(k := None),
            running := filter (\<lambda>r. fst r \<noteq> t) (running s)\<rparr>)"

text \<open>
  The \<^verbatim>\<open>clear-cache\<close> handler (lines 1995 to 2054) ends with \<^verbatim>\<open>metaTasks.clear()\<close>,
  \<^verbatim>\<open>thumbTasks.clear()\<close> and \<^verbatim>\<open>audioExtractTasks.clear()\<close>: the maps are emptied, the computations
  go on.
\<close>

definition clear_tasks :: "flight \<Rightarrow> flight" where
  "clear_tasks s = s\<lparr>tasks := Map.empty\<rparr>"

datatype thumb_event = ThumbRequest lookup | ThumbSettled nat | ThumbCacheCleared

fun thumb_step :: "flight \<Rightarrow> thumb_event \<Rightarrow> flight" where
  "thumb_step s (ThumbRequest l) = snd (thumb_request l s)"
| "thumb_step s (ThumbSettled t) = settle t s"
| "thumb_step s ThumbCacheCleared = clear_tasks s"

definition run_thumb :: "thumb_event list \<Rightarrow> flight" where
  "run_thumb es = foldl thumb_step no_flight es"

text \<open>
  A sequence of events, started in state \<open>s\<close>, in which the cache is cleared only at moments
  at which no thumbnail generation is running.
\<close>

fun thumb_quiet :: "flight \<Rightarrow> thumb_event list \<Rightarrow> bool" where
  "thumb_quiet s [] = True"
| "thumb_quiet s (ThumbCacheCleared # es) =
     (running s = [] \<and> thumb_quiet (thumb_step s ThumbCacheCleared) es)"
| "thumb_quiet s (e # es) = thumb_quiet (thumb_step s e) es"

text \<open>The computations in flight for a key.\<close>

definition in_flight :: "string \<Rightarrow> flight \<Rightarrow> nat list" where
  "in_flight k s = map fst (filter (\<lambda>r. snd r = k) (running s))"

text \<open>
  The audio task (lines 786 to 884) is an \<^verbatim>\<open>async\<close> function whose \<^verbatim>\<open>try\<close> block awaits the
  probe and then either returns a value or returns the promise of the extraction, without
  awaiting it. Its \<^verbatim>\<open>finally\<close> block, which deletes the map entry, therefore runs when the
  body returns: after the probe, and before the extraction that was just started settles.
  A task is \<open>probing\<close> from its creation until its body returns, and \<open>extracting\<close> from
  then until the extraction settles, if the body started one.
\<close>

record audio_flight =
  audioExtractTasks :: "string \<rightharpoonup> nat"
  probing :: "(nat \<times> string) list"
  extracting :: "(nat \<times> string) list"
  next_task :: nat

definition no_audio_flight :: audio_flight where
  "no_audio_flight =
     \<lparr>audioExtractTasks = Map.empty, probing = [], extracting = [], next_task = 0\<rparr>"

text \<open>
  Lines 777 to 887: a forced refresh deletes the map entry before the map is consulted
  (it also empties the cache directory).
\<close>

definition audio_request :: "string \<Rightarrow> bool \<Rightarrow> audio_flight \<Rightarrow> reply \<times> audio_flight" where
  "audio_request cacheDir forceRefresh s =
     (let s1 = (if forceRefresh
                then s\<lparr>audioExtractTasks := (audioExtractTasks s)(cacheDir := None)\<rparr>
                else s)
      in case audioExtractTasks s1 cacheDir of
           Some t \<Rightarrow> (Awaits t, s1)
         | None \<Rightarrow>
             (Awaits (next_task s1),
              s1\<lparr>audioExtractTasks := (audioExtractTasks s1)(cacheDir \<mapsto> next_task s1),
                 probing := probing s1 @ [(next_task s1, cacheDir)],
                 next_task := Suc (next_task s1)\<rparr>))"

text \<open>
  The body of task \<open>t\<close> returns; \<open>extraction\<close> says whether it returns the promise of an
  extraction it has started (otherwise the probe failed, there is no audio stream, or the
  cached files are served).
\<close>

definition audio_body_returns :: "nat \<Rightarrow> bool \<Rightarrow> audio_flight \<Rightarrow> audio_flight" where
  "audio_body_returns t extraction s =
     (case map_of (probing s) t of
        None \<Rightarrow> s
      | Some k \<Rightarrow>
          s\<lparr>audioExtractTasks := (audioExtractTasks s)(k := None),
            probing := filter (\<lambda>r. fst r \<noteq> t) (probing s),
            extracting := (if extraction then extracting s @ [(t, k)] else extracting s)\<rparr>)"

definition audio_settles :: "nat \<Rightarrow> audio_flight \<Rightarrow> audio_flight" where
  "audio_settles t s = s\<lparr>extracting := filter (\<lambda>r. fst r \<noteq> t) (extracting s)\<rparr>"

definition clear_audio_tasks :: "audio_flight \<Rightarrow> audio_flight" where
  "clear_audio_tasks s = s\<lparr>audioExtractTasks := Map.empty\<rparr>"

datatype audio_event =
    AudioRequest string bool
  | AudioBodyReturns nat bool
  | AudioSettled nat
  | AudioCacheCleared

fun audio_step :: "audio_flight \<Rightarrow> audio_event \<Rightarrow> audio_flight" where
  "audio_step s (AudioRequest k force) = snd (audio_request k force s)"
| "audio_step s (AudioBodyReturns t extraction) = audio_body_returns t extraction s"
| "audio_step s (AudioSettled t) = audio_settles t s"
| "audio_step s AudioCacheCleared = clear_audio_tasks s"

definition run_audio :: "audio_event list \<Rightarrow> audio_flight" where
  "run_audio es = foldl audio_step no_audio_flight es"

text \<open>
  A sequence of events, started in state \<open>s\<close>, in which no request forces a refresh and the
  cache is cleared only at moments at which no audio task is probing.
\<close>

fun audio_quiet :: "audio_flight \<Rightarrow> audio_event list \<Rightarrow> bool" where
  "audio_quiet s [] = True"
| "audio_quiet s (AudioRequest k force # es) =
     (\<not> force \<and> audio_quiet (audio_step s (AudioRequest k force)) es)"
| "audio_quiet s (AudioCacheCleared # es) =
     (probing s = [] \<and> audio_quiet (audio_step s AudioCacheCleared) es)"
| "audio_quiet s (e # es) = audio_quiet (audio_step s e) es"

text \<open>The audio tasks of a key that are probing, and all its computations in flight.\<close>

definition probing_for :: "string \<Rightarrow> audio_flight \<Rightarrow> nat list" where
  "probing_for k s = map fst (filter (\<lambda>r. snd r = k) (probing s))"

definition audio_in_flight :: "string \<Rightarrow> audio_flight \<Rightarrow> nat list" where
  "audio_in_flight k s = map fst (filter (\<lambda>r. snd r = k) (probing s @ extracting s))"

text \<open>
  What the steps of a quiet sequence keep true of the thumbnail map: the map and the list
  of running promises describe each other, and no two running promises share a number. The
  audio map is described in the same way by the list of probing tasks.
\<close>

definition flight_inv :: "flight \<Rightarrow> bool" where
  "flight_inv s \<longleftrightarrow>
     (\<forall>t k. (t, k) \<in> set (running s) \<longleftrightarrow> tasks s k = Some t)
     \<and> distinct (map fst (running s))
     \<and> (\<forall>r \<in> set (running s). fst r < next_id s)"

definition audio_inv :: "audio_flight \<Rightarrow> bool" where
  "audio_inv s \<longleftrightarrow>
     (\<forall>t k. (t, k) \<in> set (probing s) \<longleftrightarrow> audioExtractTasks s k = Some t)
     \<and> distinct (map fst (probing s))
     \<and> (\<forall>r \<in> set (probing s). fst r < next_task s)"

section \<open>Metadata cache\<close>

text \<open>
  The \<^verbatim>\<open>get-cached-metadata\<close> handler (lines 444 to 491). Metadata is the parsed probe output,
  kept as an opaque string. The handler first answers from the memory cache, then from the
  cache file (a file that cannot be parsed is logged and skipped), then joins or starts the
  probe task. The handler resolves with metadata or with \<^verbatim>\<open>null\<close> (\<open>Inr None\<close>).
\<close>

record meta_state =
  metadataMemoryCache :: "string \<rightharpoonup> string"
  metaTasks :: flight
  disk :: filesys

datatype meta_reply = Resolved "string option" | AwaitsTask nat

definition read_meta_cache :: "node \<Rightarrow> filesys \<Rightarrow> string \<Rightarrow> string option" where
  "read_meta_cache N fs cachePath =
     (case fs cachePath of
        None \<Rightarrow> None
      | Some f \<Rightarrow> JSON_parse N (data f))"

definition get_cached_metadata ::
  "node \<Rightarrow> string \<Rightarrow> meta_state \<Rightarrow> error + meta_reply \<times> meta_state" where
  "get_cached_metadata N videoPath s =
     (case metadataMemoryCache s videoPath of
        Some m \<Rightarrow> Inr (Resolved (Some m), s)
      | None \<Rightarrow>
          (case computeMetaCachePath N (disk s) videoPath of
             Inl e \<Rightarrow> Inl e
           | Inr cachePath \<Rightarrow>
               (case read_meta_cache N (disk s) cachePath of
                  Some m \<Rightarrow>
                    Inr (Resolved (Some m),
                         s\<lparr>metadataMemoryCache := (metadataMemoryCache s)(videoPath \<mapsto> m)\<rparr>)
                | None \<Rightarrow>
                    (case tasks (metaTasks s) cachePath of
                       Some t \<Rightarrow> Inr (AwaitsTask t, s)
                     | None \<Rightarrow>
                         Inr (AwaitsTask (next_id (metaTasks s)),
                              s\<lparr>metaTasks := snd (start_task cachePath (metaTasks s))\<rparr>)))))"

text \<open>
  The task body (lines 467 to 487), run when the probe of promise \<open>t\<close> answers: \<open>Inr\<close> the
  metadata, or \<open>Inl\<close> the error that \<^verbatim>\<open>ffprobeWithFullMetadata\<close> throws. \<open>write_ok\<close> says whether
  writing the cache file succeeds (a failure there is logged and the metadata is still
  returned); \<open>now\<close> is the modification time the new file gets.
\<close>

definition meta_task_settles ::
  "node \<Rightarrow> real \<Rightarrow> bool \<Rightarrow> string \<Rightarrow> string \<Rightarrow> nat \<Rightarrow> error + string \<Rightarrow> meta_state
     \<Rightarrow> (error + string option) \<times> meta_state" where
  "meta_task_settles N now write_ok videoPath cachePath t probed s =
     (let s1 = s\<lparr>metaTasks := settle t (metaTasks s)\<rparr>
      in case probed of
           Inl e \<Rightarrow> (Inr None, s1)
         | Inr metadata \<Rightarrow>
             if write_ok
             then (Inr (Some metadata),
                   s1\<lparr>disk := (disk s)(cachePath \<mapsto>
                                 \<lparr>mtimeMs = now, data = JSON_stringify N metadata\<rparr>),
                      metadataMemoryCache := (metadataMemoryCache s)(videoPath \<mapsto> metadata)\<rparr>)
             else (Inr (Some metadata), s1))"

section \<open>Audio extraction\<close>

text \<open>
  The task of \<^verbatim>\<open>get-cached-extracted-audio\<close> (lines 738 to 888). The cache directory of one
  source is a map from the names of the files in it to their sizes. \<^verbatim>\<open>cleanupCache\<close> (lines
  760 to 775) unlinks every file of the directory; an unlink that throws is logged and the
  file is skipped. Which unlinks throw is decided outside the program, so each call takes
  the names of the files that cannot be unlinked at that moment: those files stay, all
  others go. The directory itself is left in place.
\<close>

type_synonym cache_dir = "string \<rightharpoonup> nat"

definition cleanupCache :: "string list \<Rightarrow> cache_dir \<Rightarrow> cache_dir" where
  "cleanupCache locked d = (\<lambda>f. if f \<in> set locked then d f else None)"

definition track_file :: "node \<Rightarrow> nat \<Rightarrow> string" where
  "track_file N i = ''audio_track_'' @ String N (real i) @ ''.wav''"

definition outputs :: "node \<Rightarrow> nat \<Rightarrow> string list" where
  "outputs N expected = map (track_file N) [0..<expected]"

definition valid_output :: "cache_dir \<Rightarrow> string \<Rightarrow> bool" where
  "valid_output d f = (case d f of None \<Rightarrow> False | Some sz \<Rightarrow> 0 < sz)"

definition checkExisting :: "node \<Rightarrow> cache_dir \<Rightarrow> nat \<Rightarrow> string list option" where
  "checkExisting N d expected =
     (if list_all (valid_output d) (outputs N expected) then Some (outputs N expected) else None)"

text \<open>
  The state shared by the per-track handlers of lines 807 to 877: the directory, the two
  closure variables, and the promise (\<open>None\<close> while pending; the first \<^verbatim>\<open>resolve\<close> or
  \<^verbatim>\<open>reject\<close> settles it, later calls have no effect).
\<close>

record extraction =
  cache :: cache_dir
  completed :: nat
  hasError :: bool
  settled :: "(error + string list) option"

definition settle_with :: "error + string list \<Rightarrow> extraction \<Rightarrow> extraction" where
  "settle_with r x = (case settled x of None \<Rightarrow> x\<lparr>settled := Some r\<rparr> | Some r0 \<Rightarrow> x)"

text \<open>
  One engine process per track reports \<^verbatim>\<open>end\<close> or \<^verbatim>\<open>error\<close> (a timeout kills the process,
  which then reports \<^verbatim>\<open>error\<close>). The event carries the track index, for an \<^verbatim>\<open>error\<close> the
  message, the size of the output file the process leaves behind (\<open>None\<close> when it leaves
  none), and the files that cannot be unlinked when the handler runs. Between two such
  events the \<^verbatim>\<open>clear-cache\<close> handler (lines 1995 to 2054) may run: it deletes what it can
  delete under the cache directories and touches none of the closure variables.
\<close>

datatype track_event =
    TrackEnd nat "nat option" "string list"
  | TrackError nat string "nat option" "string list"
  | CacheCleared "string list"

definition engine_wrote :: "node \<Rightarrow> nat \<Rightarrow> nat option \<Rightarrow> extraction \<Rightarrow> extraction" where
  "engine_wrote N i szo x =
     (case szo of None \<Rightarrow> x | Some n \<Rightarrow> x\<lparr>cache := (cache x)(track_file N i \<mapsto> n)\<rparr>)"

definition on_end :: "node \<Rightarrow> nat \<Rightarrow> string list \<Rightarrow> extraction \<Rightarrow> extraction" where
  "on_end N expected locked x =
     (let x1 = x\<lparr>completed := completed x + 1\<rparr>
      in if completed x1 = expected \<and> \<not> hasError x1
         then if list_all (valid_output (cache x1)) (outputs N expected)
              then settle_with (Inr (outputs N expected)) x1
              else settle_with (Inl InvalidFiles)
                     (x1\<lparr>cache := cleanupCache locked (cache x1)\<rparr>)
         else x1)"

definition on_error :: "nat \<Rightarrow> string \<Rightarrow> string list \<Rightarrow> extraction \<Rightarrow> extraction" where
  "on_error index msg locked x =
     (if \<not> hasError x
      then settle_with (Inl (ExtractionFailed index msg))
             (x\<lparr>hasError := True, cache := cleanupCache locked (cache x)\<rparr>)
      else x)"

fun track_step :: "node \<Rightarrow> nat \<Rightarrow> extraction \<Rightarrow> track_event \<Rightarrow> extraction" where
  "track_step N expected x (TrackEnd i szo locked) =
     on_end N expected locked (engine_wrote N i szo x)"
| "track_step N expected x (TrackError i msg szo locked) =
     on_error i msg locked (engine_wrote N i szo x)"
| "track_step N expected x (CacheCleared locked) =
     x\<lparr>cache := cleanupCache locked (cache x)\<rparr>"

fun is_end :: "track_event \<Rightarrow> bool" where
  "is_end (TrackEnd i szo locked) = True"
| "is_end (TrackError i msg szo locked) = False"
| "is_end (CacheCleared locked) = False"

fun is_error :: "track_event \<Rightarrow> bool" where
  "is_error (TrackEnd i szo locked) = False"
| "is_error (TrackError i msg szo locked) = True"
| "is_error (CacheCleared locked) = False"

text \<open>
  The extraction starts on the directory as the cleanup of line 804 leaves it; \<open>locked0\<close>
  are the files that cannot be unlinked then.
\<close>

definition begin_extraction :: "string list \<Rightarrow> cache_dir \<Rightarrow> extraction" where
  "begin_extraction locked0 d =
     \<lparr>cache = cleanupCache locked0 d, completed = 0, hasError = False, settled = None\<rparr>"

definition extract_tracks ::
  "node \<Rightarrow> nat \<Rightarrow> string list \<Rightarrow> cache_dir \<Rightarrow> track_event list \<Rightarrow> extraction" where
  "extract_tracks N expected locked0 d evs =
     foldl (track_step N expected) (begin_extraction locked0 d) evs"

text \<open>
  The task body around the extraction (lines 786 to 884): \<open>probed\<close> is the number of audio
  streams the probe reports, or the probe's error. The result is the promise's state after
  the given track events, with the directory.
\<close>

definition audio_task ::
  "node \<Rightarrow> cache_dir \<Rightarrow> error + nat \<Rightarrow> bool \<Rightarrow> string list \<Rightarrow> track_event list
     \<Rightarrow> (error + string list) option \<times> cache_dir" where
  "audio_task N d probed forceRefresh locked0 evs =
     (case probed of
        Inl e \<Rightarrow> (Some (Inl e), cleanupCache locked0 d)
      | Inr expected \<Rightarrow>
          if expected \<le> 0 then (Some (Inr []), d)
          else
            (case checkExisting N d expected of
               Some existing \<Rightarrow>
                 if \<not> forceRefresh then (Some (Inr existing), d)
                 else (settled (extract_tracks N expected locked0 d evs),
                       cache (extract_tracks N expected locked0 d evs))
             | None \<Rightarrow>
                 (settled (extract_tracks N expected locked0 d evs),
                  cache (extract_tracks N expected locked0 d evs))))"

section \<open>Size-targeted export\<close>

text \<open>
  The last part of the \<^verbatim>\<open>export-video\<close> handler (lines 1488 to 1578), reached when the output
  is a video and the quality is \<^verbatim>\<open>compressed\<close>. The target \<^verbatim>\<open>targetBytes\<close> and the first
  \<^verbatim>\<open>videoBitrateKbps\<close> come from the floating-point computation of lines 1489 to 1498 and are
  inputs here. The bit rate is a whole number from then on, and on whole numbers below
  \<open>2\<^sup>5\<^sup>0\<close> the double \<^verbatim>\<open>Math.floor(v * 0.80)\<close> is \<open>v * 80 div 100\<close> (likewise for 0.85).

  One encode is a call of \<^verbatim>\<open>encodeOnce\<close> or \<^verbatim>\<open>encodeTwoPass\<close>. What the call does is the
  encoder's answer to the attempt number and the call: the promise resolves with the
  output path (\<open>Done\<close>, with the size \<^verbatim>\<open>statSync(outputPath)\<close> then reports, \<open>None\<close> when it
  throws), resolves with the canceled status, or is rejected. The handler's own effects are
  collected in a log of actions.
\<close>

datatype tier = Fast | Standard | High

datatype export_result = Path string | Canceled

datatype action = RunOnce nat bool | RunTwoPass nat | Unlink string

datatype enc_outcome = Done "nat option" | Cancel | Fail error

type_synonym encoder = "nat \<Rightarrow> action \<Rightarrow> enc_outcome"

definition maxAttempts :: nat where
  "maxAttempts = 3"

definition reduce80 :: "nat \<Rightarrow> nat" where
  "reduce80 videoBitrateKbps = max 100 (videoBitrateKbps * 80 div 100)"

definition reduce85 :: "nat \<Rightarrow> nat" where
  "reduce85 videoBitrateKbps = max 100 (videoBitrateKbps * 85 div 100)"

text \<open>
  The loop of lines 1513 to 1528. An error thrown inside the loop (a rejected re-encode, a
  failing \<^verbatim>\<open>statSync\<close>) is caught by the \<^verbatim>\<open>catch\<close> of line 1529 and the handler returns the
  output path. The size was read from the file just before, so the guarded unlink of the
  output is always made.
\<close>

function retry_two_pass ::
  "encoder \<Rightarrow> string \<Rightarrow> real \<Rightarrow> nat \<Rightarrow> nat \<Rightarrow> nat \<Rightarrow> action list
     \<Rightarrow> export_result \<times> action list" where
  "retry_two_pass enc outputPath targetBytes videoBitrateKbps attempts sz acts =
     (if real sz > targetBytes \<and> attempts < maxAttempts
      then
        (case enc (attempts + 1) (RunTwoPass (reduce80 videoBitrateKbps)) of
           Cancel \<Rightarrow>
             (Canceled, acts @ [Unlink outputPath, RunTwoPass (reduce80 videoBitrateKbps)])
         | Fail e \<Rightarrow>
             (Path outputPath, acts @ [Unlink outputPath, RunTwoPass (reduce80 videoBitrateKbps)])
         | Done None \<Rightarrow>
             (Path outputPath, acts @ [Unlink outputPath, RunTwoPass (reduce80 videoBitrateKbps)])
         | Done (Some sz') \<Rightarrow>
             retry_two_pass enc outputPath targetBytes (reduce80 videoBitrateKbps)
               (attempts + 1) sz'
               (acts @ [Unlink outputPath, RunTwoPass (reduce80 videoBitrateKbps)]))
      else (Path outputPath, acts))"
  by pat_completeness auto
termination
  by (relation "measure (\<lambda>(enc, outputPath, targetBytes, v, attempts, sz, acts).
                           maxAttempts - attempts)") auto

text \<open>
  The loop of lines 1549 to 1572. Both branches of the \<^verbatim>\<open>if\<close> on \<^verbatim>\<open>useCRF\<close> reduce the bit rate
  in the same way; the first also leaves constant-quality mode.
\<close>

function retry_single_pass ::
  "encoder \<Rightarrow> string \<Rightarrow> real \<Rightarrow> nat \<Rightarrow> bool \<Rightarrow> nat \<Rightarrow> nat \<Rightarrow> action list
     \<Rightarrow> export_result \<times> action list" where
  "retry_single_pass enc outputPath targetBytes videoBitrateKbps useCRF attempts sz acts =
     (if real sz > targetBytes \<and> attempts < maxAttempts
      then
        (case enc (attempts + 1)
                (RunOnce (reduce85 videoBitrateKbps)
                   (if useCRF \<and> attempts + 1 = 1 then False else useCRF)) of
           Cancel \<Rightarrow>
             (Canceled,
              acts @ [Unlink outputPath,
                     RunOnce (reduce85 videoBitrateKbps)
                       (if useCRF \<and> attempts + 1 = 1 then False else useCRF)])
         | Fail e \<Rightarrow>
             (Path outputPath,
              acts @ [Unlink outputPath,
                     RunOnce (reduce85 videoBitrateKbps)
                       (if useCRF \<and> attempts + 1 = 1 then False else useCRF)])
         | Done None \<Rightarrow>
             (Path outputPath,
              acts @ [Unlink outputPath,
                     RunOnce (reduce85 videoBitrateKbps)
                       (if useCRF \<and> attempts + 1 = 1 then False else useCRF)])
         | Done (Some sz') \<Rightarrow>
             retry_single_pass enc outputPath targetBytes (reduce85 videoBitrateKbps)
               (if useCRF \<and> attempts + 1 = 1 then False else useCRF)
               (attempts + 1) sz'
               (acts @ [Unlink outputPath,
                       RunOnce (reduce85 videoBitrateKbps)
                         (if useCRF \<and> attempts + 1 = 1 then False else useCRF)]))
      else (Path outputPath, acts))"
  by pat_completeness auto
termination
  by (relation "measure (\<lambda>(enc, outputPath, targetBytes, v, useCRF, attempts, sz, acts).
                           maxAttempts - attempts)") auto

text \<open>
  Lines 1500 to 1578: the first encode is outside the \<^verbatim>\<open>try\<close> block, so its rejection
  rejects the handler; the promise of the handler is \<open>Inl\<close> when rejected.
\<close>

definition first_action :: "tier \<Rightarrow> nat \<Rightarrow> action" where
  "first_action compressionQuality videoBitrateKbps =
     (if compressionQuality = High then RunTwoPass videoBitrateKbps
      else RunOnce videoBitrateKbps (compressionQuality = Standard))"

definition export_compressed ::
  "encoder \<Rightarrow> tier \<Rightarrow> string \<Rightarrow> real \<Rightarrow> nat \<Rightarrow> (error + export_result) \<times> action list" where
  "export_compressed enc compressionQuality outputPath targetBytes videoBitrateKbps =
     (case enc 0 (first_action compressionQuality videoBitrateKbps) of
        Cancel \<Rightarrow> (Inr Canceled, [first_action compressionQuality videoBitrateKbps])
      | Fail e \<Rightarrow> (Inl e, [first_action compressionQuality videoBitrateKbps])
      | Done None \<Rightarrow>
          (Inr (Path outputPath), [first_action compressionQuality videoBitrateKbps])
      | Done (Some sz) \<Rightarrow>
          (if compressionQuality = High
           then (Inr (fst (retry_two_pass enc outputPath targetBytes videoBitrateKbps 0 sz
                             [first_action compressionQuality videoBitrateKbps])),
                 snd (retry_two_pass enc outputPath targetBytes videoBitrateKbps 0 sz
                        [first_action compressionQuality videoBitrateKbps]))
           else (Inr (fst (retry_single_pass enc outputPath targetBytes videoBitrateKbps
                             (compressionQuality = Standard) 0 sz
                             [first_action compressionQuality videoBitrateKbps])),
                 snd (retry_single_pass enc outputPath targetBytes videoBitrateKbps
                        (compressionQuality = Standard) 0 sz
                        [first_action compressionQuality videoBitrateKbps]))))"

section \<open>Encoding, two passes, cancellation\<close>

text \<open>
  \<^verbatim>\<open>activeExports\<close> and \<^verbatim>\<open>canceledExports\<close> (lines 121 and 122) are keyed by the sender's id.
  The files that matter to an encode are the output and the statistics files, so the file
  system is a map from a path to the size of the file there. \<open>spawned\<close> records the engine
  commands that were started.
\<close>

datatype command = SinglePass | FirstPass | SecondPass

record exports =
  files :: "string \<rightharpoonup> nat"
  activeExports :: "nat \<rightharpoonup> command"
  canceledExports :: "nat set"
  spawned :: "command list"

text \<open>
  The regular expressions the error handlers test: \<open>kill_pattern\<close> is
  \<^verbatim>\<open>/kill|SIGKILL|terminated|canceled/i\<close> on the error message, \<open>queue_pattern\<close> is
  \<^verbatim>\<open>/frames left in the queue|Qavg/i\<close> and \<open>error_pattern\<close> is \<^verbatim>\<open>/error|failed|invalid/i\<close> on the
  diagnostic stream.
\<close>

record regexes =
  kill_pattern :: "string \<Rightarrow> bool"
  queue_pattern :: "string \<Rightarrow> bool"
  error_pattern :: "string \<Rightarrow> bool"

text \<open>
  One run of the engine, as the handlers see it: the files the process wrote, whether the
  \<^verbatim>\<open>cancel-export\<close> handler ran while the process was registered, and the terminal event
  (\<^verbatim>\<open>end\<close>, or \<^verbatim>\<open>error\<close> with the message and the diagnostic stream).
\<close>

datatype terminal = Ended | Errored string string

record engine_run =
  wrote :: "(string \<times> nat) list"
  cancel_during :: bool
  terminal :: terminal

text \<open>Lines 1580 to 1593; killing the process shows in the terminal event of the run.\<close>

definition cancel_export :: "nat \<Rightarrow> exports \<Rightarrow> exports" where
  "cancel_export senderId s =
     (case activeExports s senderId of
        None \<Rightarrow> s
      | Some cmd \<Rightarrow>
          s\<lparr>canceledExports := insert senderId (canceledExports s),
            activeExports := (activeExports s)(senderId := None)\<rparr>)"

definition unlink_if_exists :: "string \<Rightarrow> exports \<Rightarrow> exports" where
  "unlink_if_exists p s = s\<lparr>files := (files s)(p := None)\<rparr>"

text \<open>
  From the \<^verbatim>\<open>start\<close> event to just before the terminal event. The terminal handlers all
  begin by deleting the sender from \<^verbatim>\<open>activeExports\<close>.
\<close>

definition run_engine :: "command \<Rightarrow> nat \<Rightarrow> engine_run \<Rightarrow> exports \<Rightarrow> exports" where
  "run_engine cmd senderId r s =
     (let s1 = s\<lparr>activeExports := (activeExports s)(senderId \<mapsto> cmd),
                 spawned := spawned s @ [cmd],
                 files := files s ++ map_of (wrote r)\<rparr>
      in if cancel_during r then cancel_export senderId s1 else s1)"

definition unregister :: "nat \<Rightarrow> exports \<Rightarrow> exports" where
  "unregister senderId s = s\<lparr>activeExports := (activeExports s)(senderId := None)\<rparr>"

definition uncancel :: "nat \<Rightarrow> exports \<Rightarrow> exports" where
  "uncancel senderId s = s\<lparr>canceledExports := canceledExports s - {senderId}\<rparr>"

text \<open>\<^verbatim>\<open>encodeOnce\<close>, the event handlers of lines 1144 to 1177.\<close>

definition encodeOnce ::
  "regexes \<Rightarrow> nat \<Rightarrow> string \<Rightarrow> engine_run \<Rightarrow> exports \<Rightarrow> (error + export_result) \<times> exports" where
  "encodeOnce R senderId outputPath r s =
     (let s1 = unregister senderId (run_engine SinglePass senderId r s)
      in case terminal r of
           Ended \<Rightarrow> (Inr (Path outputPath), s1)
         | Errored msg stderr \<Rightarrow>
             if senderId \<in> canceledExports s1 \<or> kill_pattern R msg
             then (Inr Canceled, uncancel senderId s1)
             else (Inl (ExportFailed msg stderr), s1))"

text \<open>The three statistics files and their removal (lines 1406 to 1411 and twice more).\<close>

definition log0 :: "string \<Rightarrow> string" where
  "log0 tempLogFile = tempLogFile @ ''-0.log''"

definition mbtree :: "string \<Rightarrow> string" where
  "mbtree tempLogFile = tempLogFile @ ''-0.log.mbtree''"

definition cleanup_logs :: "string \<Rightarrow> exports \<Rightarrow> exports" where
  "cleanup_logs tempLogFile s =
     unlink_if_exists (mbtree tempLogFile)
       (unlink_if_exists (log0 tempLogFile) (unlink_if_exists tempLogFile s))"

text \<open>The second pass with its handlers, lines 1397 to 1471.\<close>

definition second_pass ::
  "regexes \<Rightarrow> nat \<Rightarrow> string \<Rightarrow> string \<Rightarrow> engine_run \<Rightarrow> exports
     \<Rightarrow> (error + export_result) \<times> exports" where
  "second_pass R senderId outputPath tempLogFile r2 s =
     (let s1 = run_engine SecondPass senderId r2 s
      in case terminal r2 of
           Ended \<Rightarrow> (Inr (Path outputPath), cleanup_logs tempLogFile (unregister senderId s1))
         | Errored msg stderr \<Rightarrow>
             if queue_pattern R stderr \<and> \<not> error_pattern R stderr
                \<and> (case files s1 outputPath of None \<Rightarrow> False | Some sz \<Rightarrow> 0 < sz)
             then (Inr (Path outputPath), cleanup_logs tempLogFile (unregister senderId s1))
             else if senderId \<in> canceledExports s1 \<or> kill_pattern R msg
             then (Inr Canceled,
                   uncancel senderId (cleanup_logs tempLogFile (unregister senderId s1)))
             else (Inl (SecondPassFailed msg stderr),
                   cleanup_logs tempLogFile (unregister senderId s1)))"

text \<open>
  \<^verbatim>\<open>encodeTwoPass\<close>, lines 1181 to 1482. \<open>r1\<close> is the run of the first pass (of the single
  pass for an AVI output) and \<open>r2\<close> the run of the second pass, if it is started. The checks
  after the first pass are in the order of the source: the \<^verbatim>\<open>end\<close> handler's test that the
  log exists (line 1240), the cancellation check (line 1271), the second test that the log
  exists (line 1285) and the size test (line 1297). An existing file can be stat'ed, so the
  \<^verbatim>\<open>catch\<close> of line 1307 is not taken.
\<close>

definition encodeTwoPass ::
  "regexes \<Rightarrow> nat \<Rightarrow> string \<Rightarrow> string \<Rightarrow> string \<Rightarrow> engine_run \<Rightarrow> engine_run \<Rightarrow> exports
     \<Rightarrow> (error + export_result) \<times> exports" where
  "encodeTwoPass R senderId outputPath outputExt tempLogFile r1 r2 s =
     (if outputExt = ''.avi'' then encodeOnce R senderId outputPath r1 s
      else
        (let s1 = unregister senderId (run_engine FirstPass senderId r1 s)
         in case terminal r1 of
              Errored msg stderr \<Rightarrow>
                if senderId \<in> canceledExports s1 \<or> kill_pattern R msg
                then (Inr Canceled, unlink_if_exists tempLogFile (uncancel senderId s1))
                else (Inl (FirstPassFailed msg stderr), unlink_if_exists tempLogFile s1)
            | Ended \<Rightarrow>
                (case files s1 (log0 tempLogFile) of
                   None \<Rightarrow> (Inl FirstPassNoLog, unlink_if_exists tempLogFile s1)
                 | Some sz \<Rightarrow>
                     if senderId \<in> canceledExports s1
                     then (Inr Canceled, unlink_if_exists tempLogFile s1)
                     else if files s1 (log0 tempLogFile) = None
                     then (Inl LogNotFound, unlink_if_exists tempLogFile s1)
                     else if sz < 1024
                     then (Inl (LogTooSmall sz), cleanup_logs tempLogFile s1)
                     else second_pass R senderId outputPath tempLogFile r2 s1)))"

section \<open>Folder watcher\<close>

text \<open>
  One call of the \<^verbatim>\<open>watch-folder\<close> handler (lines 1751 to 1864) creates a watcher with its
  own \<^verbatim>\<open>existingFiles\<close> and \<^verbatim>\<open>debounceTimers\<close>; \<^verbatim>\<open>unwatch-folder\<close> (lines 1867 to 1874) closes
  it. The record is that closure: whether the root is in \<^verbatim>\<open>folderWatchers\<close>, whether the
  watcher was closed, the paths with a pending debounce timer, the timer callbacks that are
  suspended in the 200 ms stability wait (with the size seen before the wait), the tracked
  files, and the notifications sent to the window, oldest first.
\<close>

datatype notification = FileAdded string | FileRemoved string

record watcher =
  folderPath :: string
  registered :: bool
  closed :: bool
  debounceTimers :: "string list"
  stabilizing :: "(string \<times> nat) list"
  existingFiles :: "string set"
  sent :: "notification list"

definition videoExtensions :: "string list" where
  "videoExtensions = [''.mp4'', ''.avi'', ''.mov'', ''.mkv'', ''.webm'', ''.flv'', ''.wmv'']"

definition watch_folder :: "string \<Rightarrow> string list \<Rightarrow> watcher" where
  "watch_folder dir scanned =
     \<lparr>folderPath = dir, registered = True, closed = False, debounceTimers = [],
      stabilizing = [], existingFiles = set scanned, sent = []\<rparr>"

definition unwatch_folder :: "watcher \<Rightarrow> watcher" where
  "unwatch_folder w = (if registered w then w\<lparr>closed := True, registered := False\<rparr> else w)"

text \<open>
  The callback of \<^verbatim>\<open>fs.watch\<close> (lines 1789 to 1858); a closed watcher calls it no more. It
  replaces the timer of the path by a new one.
\<close>

definition raw_event :: "node \<Rightarrow> string \<Rightarrow> watcher \<Rightarrow> watcher" where
  "raw_event N filename w =
     (if closed w \<or> filename = [] then w
      else if extname_lower N filename \<notin> set videoExtensions then w
      else w\<lparr>debounceTimers :=
                join N [folderPath w, filename]
                # removeAll (join N [folderPath w, filename]) (debounceTimers w)\<rparr>)"

text \<open>
  The timer callback up to its \<^verbatim>\<open>await\<close> (lines 1807 to 1828) or to its end; \<open>szo\<close> is the size
  of the file at the path, \<open>None\<close> when there is no file. The window exists.
\<close>

definition timer_fires :: "string \<Rightarrow> nat option \<Rightarrow> watcher \<Rightarrow> watcher" where
  "timer_fires fullPath szo w =
     (if fullPath \<notin> set (debounceTimers w) then w
      else
        (let w1 = w\<lparr>debounceTimers := removeAll fullPath (debounceTimers w)\<rparr>
         in case szo of
              Some sz \<Rightarrow>
                if fullPath \<in> existingFiles w1 then w1
                else if sz = 0 then w1
                else w1\<lparr>stabilizing := stabilizing w1 @ [(fullPath, sz)]\<rparr>
            | None \<Rightarrow>
                if fullPath \<in> existingFiles w1
                then w1\<lparr>existingFiles := existingFiles w1 - {fullPath},
                        sent := sent w1 @ [FileRemoved fullPath]\<rparr>
                else w1))"

text \<open>
  The rest of the callback after the wait (lines 1829 to 1840); a \<^verbatim>\<open>statSync\<close> that throws
  is caught and nothing is sent.
\<close>

definition stability_checked :: "string \<Rightarrow> nat option \<Rightarrow> watcher \<Rightarrow> watcher" where
  "stability_checked fullPath szo w =
     (case map_of (stabilizing w) fullPath of
        None \<Rightarrow> w
      | Some initialSize \<Rightarrow>
          (let w1 = w\<lparr>stabilizing := remove1 (fullPath, initialSize) (stabilizing w)\<rparr>
           in case szo of
                None \<Rightarrow> w1
              | Some newSize \<Rightarrow>
                  if newSize \<noteq> initialSize then w1
                  else w1\<lparr>existingFiles := insert fullPath (existingFiles w1),
                          sent := sent w1 @ [FileAdded fullPath]\<rparr>))"

datatype watch_event =
    RawEvent string
  | TimerFires string "nat option"
  | StabilityChecked string "nat option"
  | Unwatch

fun watch_step :: "node \<Rightarrow> watcher \<Rightarrow> watch_event \<Rightarrow> watcher" where
  "watch_step N w (RawEvent filename) = raw_event N filename w"
| "watch_step N w (TimerFires p szo) = timer_fires p szo w"
| "watch_step N w (StabilityChecked p szo) = stability_checked p szo w"
| "watch_step N w Unwatch = unwatch_folder w"

definition watch_run :: "node \<Rightarrow> watcher \<Rightarrow> watch_event list \<Rightarrow> watcher" where
  "watch_run N w evs = foldl (watch_step N) w evs"

fun notified_path :: "notification \<Rightarrow> string" where
  "notified_path (FileAdded p) = p"
| "notified_path (FileRemoved p) = p"

text \<open>The notifications sent after the moment at which \<open>w\<close> was the state.\<close>

definition sent_since :: "watcher \<Rightarrow> watcher \<Rightarrow> notification list" where
  "sent_since w w' = drop (length (sent w)) (sent w')"

text \<open>
  How a later state \<open>w'\<close> of a watcher relates to the state \<open>w\<close> in which it was unwatched:
  it is closed and not registered, it has no timer and no suspended callback that \<open>w\<close> did not have, and what
  it has sent since concerns only paths that had a timer or a suspended callback in \<open>w\<close>.
\<close>

definition late :: "watcher \<Rightarrow> watcher \<Rightarrow> bool" where
  "late w w' \<longleftrightarrow>
     closed w' \<and> \<not> registered w'
     \<and> set (debounceTimers w') \<subseteq> set (debounceTimers w)
     \<and> fst ` set (stabilizing w') \<subseteq> set (debounceTimers w) \<union> fst ` set (stabilizing w)
     \<and> length (sent w) \<le> length (sent w')
     \<and> take (length (sent w)) (sent w') = sent w
     \<and> notified_path ` set (sent_since w w')
           \<subseteq> set (debounceTimers w) \<union> fst ` set (stabilizing w)"

section \<open>Properties of the content hash\<close>

text \<open>
  Claim C4. Two files whose first 64 KiB, size and duration agree get the same content
  hash, whatever their paths, file systems and modification times are: the digest is
  \<open>sha256\<close> of the bytes read, the size and the duration, and of nothing else. The same
  holds for \<^verbatim>\<open>calculatePartialHash\<close> called with the same size and duration.
\<close>

theorem content_hash_ignores_path:
  assumes "fs1 p1 = Some f1" and "fs2 p2 = Some f2"
    and "take CHUNK_SIZE (data f1) = take CHUNK_SIZE (data f2)"
    and "length (data f1) = length (data f2)"
    and "clipDuration probe1 p1 d1 = clipDuration probe2 p2 d2"
  shows "getClipHash N fs1 probe1 p1 d1 = getClipHash N fs2 probe2 p2 d2
         \<and> getClipHash N fs1 probe1 p1 d1 =
             Inr (sha256 N (take CHUNK_SIZE (data f1) @ String N (real (length (data f1)))
                             @ String N (or_zero (clipDuration probe1 p1 d1))))
         \<and> calculatePartialHash N fs1 p1 n d = calculatePartialHash N fs2 p2 n d"
  using assms by (simp add: getClipHash_def statSync_def calculatePartialHash_def)

theorem content_hash_ignores_path_witness:
  "getClipHash stub_node [''/clips/a.mp4'' \<mapsto> \<lparr>mtimeMs = 1, data = ''abc''\<rparr>] (\<lambda>p. None)
       ''/clips/a.mp4'' (Some (Some 5))
   = getClipHash stub_node [''/moved/b.mp4'' \<mapsto> \<lparr>mtimeMs = 2, data = ''abc''\<rparr>] (\<lambda>p. Some 2)
       ''/moved/b.mp4'' (Some (Some 5))
   \<and> getClipHash stub_node [''/clips/a.mp4'' \<mapsto> \<lparr>mtimeMs = 1, data = ''abc''\<rparr>] (\<lambda>p. None)
       ''/clips/a.mp4'' (Some (Some 5)) = Inr ''abcn5''"
  using content_hash_ignores_path [of "[''/clips/a.mp4'' \<mapsto> \<lparr>mtimeMs = 1, data = ''abc''\<rparr>]"
      "''/clips/a.mp4''" "\<lparr>mtimeMs = 1, data = ''abc''\<rparr>"
      "[''/moved/b.mp4'' \<mapsto> \<lparr>mtimeMs = 2, data = ''abc''\<rparr>]" "''/moved/b.mp4''"
      "\<lparr>mtimeMs = 2, data = ''abc''\<rparr>" "\<lambda>p. None" "Some (Some 5)" "\<lambda>p. Some 2" "Some (Some 5)"
      stub_node 0 None]
  by (simp add: clipDuration_def stub_node_def show_real_def or_zero_def CHUNK_SIZE_def
      getClipHash_def statSync_def calculatePartialHash_def)

section \<open>Properties of the cache paths\<close>

text \<open>
  Claim C7, as amended. When the source file does not exist, \<^verbatim>\<open>computeMetaCachePath\<close> and
  \<^verbatim>\<open>computeCachedThumbPath\<close> do not fail: the error of the stat call is caught and each
  returns the fallback path, built from the path string (and the trim bounds, for a
  thumbnail) without modification time and size.
\<close>

theorem cache_path_without_source:
  assumes "fs videoPath = None"
  shows "computeMetaCachePath N fs videoPath =
           Inr (join N [tmpdir N, ''vcm-meta'',
                  basename_noext N videoPath @ ''-'' @ take 16 (sha1 N videoPath) @ ''.json''])
         \<and> computeCachedThumbPath N fs videoPath trimStart trimEnd =
           Inr (join N [getThumbCacheDir N,
                  basename_noext N videoPath @ ''-''
                  @ take 16 (sha1 N (videoPath @ trim_suffix N trimStart trimEnd)) @ ''.jpg''])"
  using assms by (simp add: computeMetaCachePath_def computeCachedThumbPath_def statSync_def)

theorem cache_path_without_source_witness:
  "computeMetaCachePath stub_node Map.empty ''/v/a.mp4'' = Inr ''/tmp/vcm-meta/clip-/v/a.mp4.json''
   \<and> computeCachedThumbPath stub_node Map.empty ''/v/a.mp4'' (Some 0) (Some 5)
       = Inr ''/tmp/vcm-thumbs/clip-/v/a.mp4trim-0-5.jpg''"
  using cache_path_without_source [of Map.empty "''/v/a.mp4''" stub_node "Some 0" "Some 5"]
  by (simp add: stub_node_def getThumbCacheDir_def trim_suffix_def show_real_def
      computeMetaCachePath_def computeCachedThumbPath_def statSync_def)

text \<open>
  The claim as stated, that the two functions fail with a not-found error for a missing
  source, is false: on an empty file system both return a path.
\<close>

theorem cache_path_not_found_counterexample:
  "computeMetaCachePath stub_node Map.empty ''/gone/a.mp4'' = Inr ''/tmp/vcm-meta/clip-/gone/a.mp4.json''
   \<and> computeCachedThumbPath stub_node Map.empty ''/gone/a.mp4'' None None
       = Inr ''/tmp/vcm-thumbs/clip-/gone/a.mp4.jpg''"
  by (simp add: computeMetaCachePath_def computeCachedThumbPath_def statSync_def stub_node_def
      getThumbCacheDir_def trim_suffix_def)

section \<open>Properties of the thumbnail lookup\<close>

text \<open>
  Claim C8. The claim says that the file under the older key is never served while a trim
  window is active, a window that starts at 0 included. The handler tests
  \<^verbatim>\<open>!trimStart || !trimEnd\<close>, which holds for a start of 0: with the trim window from 0 to 5,
  no file under the key with the trim and a file under the older key, the lookup serves the
  older file.
\<close>

theorem old_thumbnail_served_for_trim_from_zero:
  "trim_active (Some 0) (Some 5)
   \<and> thumb_lookup stub_node
        [''/v/a.mp4'' \<mapsto> \<lparr>mtimeMs = 1, data = ''xx''\<rparr>,
         ''/tmp/vcm-thumbs/clip-/v/a.mp412.jpg'' \<mapsto> \<lparr>mtimeMs = 1, data = ''jpeg''\<rparr>]
        ''/v/a.mp4'' (Some 0) (Some 5)
     = Inr (OldCacheHit ''/tmp/vcm-thumbs/clip-/v/a.mp412.jpg'')"
  by (simp add: trim_active_def thumb_lookup_def computeCachedThumbPath_def statSync_def
      stub_node_def getThumbCacheDir_def trim_suffix_def show_real_def existsSync_def falsy_def)

section \<open>Properties of the metadata cache\<close>

text \<open>
  Claim C10. When the probe of a request fails, the task resolves with \<^verbatim>\<open>null\<close> (it is not
  rejected), and neither the cache files nor the memory cache change: they are what they
  were before the request, and the settling task changes neither in whatever state it runs.
\<close>

theorem probe_failure_resolves_null:
  assumes "get_cached_metadata N videoPath s = Inr (AwaitsTask t, s1)"
  shows "fst (meta_task_settles N now write_ok videoPath cachePath t (Inl e) s1) = Inr None
         \<and> disk (snd (meta_task_settles N now write_ok videoPath cachePath t (Inl e) s1)) = disk s
         \<and> metadataMemoryCache (snd (meta_task_settles N now write_ok videoPath cachePath t (Inl e) s1))
             = metadataMemoryCache s
         \<and> fst (meta_task_settles N now write_ok videoPath cachePath t (Inl e) s') = Inr None
         \<and> disk (snd (meta_task_settles N now write_ok videoPath cachePath t (Inl e) s')) = disk s'
         \<and> metadataMemoryCache (snd (meta_task_settles N now write_ok videoPath cachePath t (Inl e) s'))
             = metadataMemoryCache s'"
  using assms
  by (auto simp: get_cached_metadata_def meta_task_settles_def Let_def
      split: option.splits sum.splits)

theorem probe_failure_resolves_null_witness:
  "get_cached_metadata stub_node ''/v/a.mp4''
      \<lparr>metadataMemoryCache = Map.empty, metaTasks = no_flight, disk = Map.empty\<rparr>
    = Inr (AwaitsTask 0,
           \<lparr>metadataMemoryCache = Map.empty,
            metaTasks = snd (start_task ''/tmp/vcm-meta/clip-/v/a.mp4.json'' no_flight),
            disk = Map.empty\<rparr>)
   \<and> fst (meta_task_settles stub_node 7 True ''/v/a.mp4'' ''/tmp/vcm-meta/clip-/v/a.mp4.json'' 0
            (Inl (ProbeFailed ''moov atom not found''))
            \<lparr>metadataMemoryCache = Map.empty,
             metaTasks = snd (start_task ''/tmp/vcm-meta/clip-/v/a.mp4.json'' no_flight),
             disk = Map.empty\<rparr>) = Inr None
   \<and> disk (snd (meta_task_settles stub_node 7 True ''/v/a.mp4''
            ''/tmp/vcm-meta/clip-/v/a.mp4.json'' 0
            (Inl (ProbeFailed ''moov atom not found''))
            \<lparr>metadataMemoryCache = Map.empty,
             metaTasks = snd (start_task ''/tmp/vcm-meta/clip-/v/a.mp4.json'' no_flight),
             disk = Map.empty\<rparr>)) = Map.empty"
  using probe_failure_resolves_null [of stub_node "''/v/a.mp4''"
      "\<lparr>metadataMemoryCache = Map.empty, metaTasks = no_flight, disk = Map.empty\<rparr>" 0
      "\<lparr>metadataMemoryCache = Map.empty,
        metaTasks = snd (start_task ''/tmp/vcm-meta/clip-/v/a.mp4.json'' no_flight),
        disk = Map.empty\<rparr>" 7 True "''/tmp/vcm-meta/clip-/v/a.mp4.json''"
      "ProbeFailed ''moov atom not found''"]
  by (simp add: get_cached_metadata_def computeMetaCachePath_def statSync_def stub_node_def
      read_meta_cache_def no_flight_def start_task_def meta_task_settles_def)

section \<open>Properties of the task maps\<close>

lemma flight_inv_initial: "flight_inv no_flight"
  by (simp add: flight_inv_def no_flight_def)

lemma flight_inv_start:
  assumes "flight_inv s" and "tasks s k = None"
  shows "flight_inv (snd (start_task k s))"
  using assms unfolding flight_inv_def start_task_def
  by (auto simp: rev_image_eqI)

lemma flight_inv_settle:
  assumes "flight_inv s"
  shows "flight_inv (settle t s)"
proof (cases "map_of (running s) t")
  case None
  then show ?thesis using assms by (simp add: settle_def)
next
  case (Some k)
  then have in_run: "(t, k) \<in> set (running s)" by (rule map_of_SomeD)
  have uniq: "\<And>k'. (t, k') \<in> set (running s) \<Longrightarrow> k' = k"
    using assms in_run unfolding flight_inv_def by (meson eq_key_imp_eq_value)
  have key: "\<And>t'. (t', k) \<in> set (running s) \<Longrightarrow> t' = t"
    using assms in_run unfolding flight_inv_def by (metis option.inject)
  have st: "settle t s = s\<lparr>tasks := (tasks s)(k := None),
                           running := filter (\<lambda>r. fst r \<noteq> t) (running s)\<rparr>"
    using Some by (simp add: settle_def)
  have a: "\<forall>t' k'. (t', k') \<in> set (running (settle t s)) \<longleftrightarrow> tasks (settle t s) k' = Some t'"
  proof (intro allI)
    fix t' k'
    have m: "(t', k') \<in> set (running s) \<longleftrightarrow> tasks s k' = Some t'"
      using assms unfolding flight_inv_def by blast
    have "(t', k') \<in> set (running s) \<Longrightarrow> (t' \<noteq> t) = (k' \<noteq> k)"
      using uniq key by blast
    then show "(t', k') \<in> set (running (settle t s)) \<longleftrightarrow> tasks (settle t s) k' = Some t'"
      using m by (auto simp: st)
  qed
  have b: "distinct (map fst (running (settle t s)))"
    using assms unfolding flight_inv_def by (simp add: st distinct_map_filter)
  have c: "\<forall>r \<in> set (running (settle t s)). fst r < next_id (settle t s)"
    using assms unfolding flight_inv_def by (simp add: st)
  show ?thesis unfolding flight_inv_def using a b c by blast
qed

lemma in_flight_le_one:
  assumes "flight_inv s"
  shows "length (in_flight k s) \<le> 1"
proof -
  have d: "distinct (in_flight k s)"
    using assms unfolding flight_inv_def in_flight_def by (simp add: distinct_map_filter)
  have "set (in_flight k s) \<subseteq> (case tasks s k of None \<Rightarrow> {} | Some t \<Rightarrow> {t})"
    using assms unfolding flight_inv_def in_flight_def by (auto split: option.splits)
  then have "card (set (in_flight k s)) \<le> 1"
    by (cases "tasks s k") (auto simp: card_mono subset_singleton_iff)
  then show ?thesis using d by (simp add: distinct_card)
qed

lemma in_flight_task:
  assumes "flight_inv s" and "in_flight k s = [t]"
  shows "tasks s k = Some t \<and> map_of (running s) t = Some k"
proof -
  have "t \<in> set (in_flight k s)" using assms(2) by simp
  then have r: "(t, k) \<in> set (running s)" unfolding in_flight_def by auto
  then have "tasks s k = Some t" using assms(1) unfolding flight_inv_def by blast
  moreover have "map_of (running s) t = Some k"
    using r assms(1) unfolding flight_inv_def by simp
  ultimately show ?thesis by simp
qed

lemma settle_clears:
  assumes "flight_inv s" and "in_flight k s = [t]"
  shows "tasks (settle t s) k = None \<and> in_flight k (settle t s) = []"
proof -
  have m: "map_of (running s) t = Some k" and tk: "tasks s k = Some t"
    using in_flight_task [OF assms] by simp_all
  have key: "\<And>t'. (t', k) \<in> set (running s) \<Longrightarrow> t' = t"
    using assms(1) tk unfolding flight_inv_def by (metis option.inject)
  show ?thesis using m key by (auto simp: settle_def in_flight_def filter_empty_conv)
qed

lemma flight_inv_clear: "flight_inv s \<Longrightarrow> running s = [] \<Longrightarrow> flight_inv (clear_tasks s)"
  by (simp add: flight_inv_def clear_tasks_def)

lemma flight_inv_request: "flight_inv s \<Longrightarrow> flight_inv (snd (thumb_request l s))"
  by (auto simp: thumb_request_def thumb_task_def flight_inv_start
           split: lookup.splits option.splits)

lemma flight_inv_quiet:
  "flight_inv s \<Longrightarrow> thumb_quiet s es \<Longrightarrow> flight_inv (foldl thumb_step s es)"
proof (induction es arbitrary: s)
  case Nil
  then show ?case by simp
next
  case (Cons e es)
  show ?case
  proof (cases e)
    case (ThumbRequest l)
    then show ?thesis
      using Cons.prems Cons.IH [of "snd (thumb_request l s)"] by (simp add: flight_inv_request)
  next
    case (ThumbSettled t)
    then show ?thesis
      using Cons.prems Cons.IH [of "settle t s"] by (simp add: flight_inv_settle)
  next
    case ThumbCacheCleared
    then show ?thesis
      using Cons.prems Cons.IH [of "clear_tasks s"] by (simp add: flight_inv_clear)
  qed
qed

lemma audio_inv_initial: "audio_inv no_audio_flight"
  by (simp add: audio_inv_def no_audio_flight_def)

lemma audio_inv_request:
  assumes "audio_inv s"
  shows "audio_inv (snd (audio_request k False s))"
  using assms unfolding audio_inv_def audio_request_def
  by (auto simp: rev_image_eqI split: option.splits)

lemma audio_inv_body_returns:
  assumes "audio_inv s"
  shows "audio_inv (audio_body_returns t x s)"
proof (cases "map_of (probing s) t")
  case None
  then show ?thesis using assms by (simp add: audio_body_returns_def)
next
  case (Some k)
  then have in_run: "(t, k) \<in> set (probing s)" by (rule map_of_SomeD)
  have uniq: "\<And>k'. (t, k') \<in> set (probing s) \<Longrightarrow> k' = k"
    using assms in_run unfolding audio_inv_def by (meson eq_key_imp_eq_value)
  have key: "\<And>t'. (t', k) \<in> set (probing s) \<Longrightarrow> t' = t"
    using assms in_run unfolding audio_inv_def by (metis option.inject)
  let ?s = "audio_body_returns t x s"
  have tk: "audioExtractTasks ?s = (audioExtractTasks s)(k := None)"
    and pr: "probing ?s = filter (\<lambda>r. fst r \<noteq> t) (probing s)"
    and nx: "next_task ?s = next_task s"
    using Some by (simp_all add: audio_body_returns_def)
  have a: "\<forall>t' k'. (t', k') \<in> set (probing ?s) \<longleftrightarrow> audioExtractTasks ?s k' = Some t'"
  proof (intro allI)
    fix t' k'
    have m: "(t', k') \<in> set (probing s) \<longleftrightarrow> audioExtractTasks s k' = Some t'"
      using assms unfolding audio_inv_def by blast
    have "(t', k') \<in> set (probing s) \<Longrightarrow> (t' \<noteq> t) = (k' \<noteq> k)"
      using uniq key by blast
    then show "(t', k') \<in> set (probing ?s) \<longleftrightarrow> audioExtractTasks ?s k' = Some t'"
      using m by (auto simp: tk pr)
  qed
  have b: "distinct (map fst (probing ?s))"
    using assms unfolding audio_inv_def by (simp add: pr distinct_map_filter)
  have c: "\<forall>r \<in> set (probing ?s). fst r < next_task ?s"
    using assms unfolding audio_inv_def by (simp add: pr nx)
  show ?thesis unfolding audio_inv_def using a b c by blast
qed

lemma audio_inv_settles: "audio_inv s \<Longrightarrow> audio_inv (audio_settles t s)"
  by (simp add: audio_inv_def audio_settles_def)

lemma probing_le_one:
  assumes "audio_inv s"
  shows "length (probing_for k s) \<le> 1"
proof -
  have d: "distinct (probing_for k s)"
    using assms unfolding audio_inv_def probing_for_def by (simp add: distinct_map_filter)
  have "set (probing_for k s) \<subseteq> (case audioExtractTasks s k of None \<Rightarrow> {} | Some t \<Rightarrow> {t})"
    using assms unfolding audio_inv_def probing_for_def by (auto split: option.splits)
  then have "card (set (probing_for k s)) \<le> 1"
    by (cases "audioExtractTasks s k") (auto simp: card_mono subset_singleton_iff)
  then show ?thesis using d by (simp add: distinct_card)
qed

lemma probing_task:
  assumes "audio_inv s" and "probing_for k s = [t]"
  shows "audioExtractTasks s k = Some t \<and> map_of (probing s) t = Some k"
proof -
  have "t \<in> set (probing_for k s)" using assms(2) by simp
  then have r: "(t, k) \<in> set (probing s)" unfolding probing_for_def by auto
  then have "audioExtractTasks s k = Some t" using assms(1) unfolding audio_inv_def by blast
  moreover have "map_of (probing s) t = Some k"
    using r assms(1) unfolding audio_inv_def by simp
  ultimately show ?thesis by simp
qed

lemma body_return_clears:
  assumes "audio_inv s" and "probing_for k s = [t]"
  shows "audioExtractTasks (audio_body_returns t x s) k = None
         \<and> probing_for k (audio_body_returns t x s) = []"
proof -
  have m: "map_of (probing s) t = Some k" and tk: "audioExtractTasks s k = Some t"
    using probing_task [OF assms] by simp_all
  have key: "\<And>t'. (t', k) \<in> set (probing s) \<Longrightarrow> t' = t"
    using assms(1) tk unfolding audio_inv_def by (metis option.inject)
  show ?thesis
    using m key by (auto simp: audio_body_returns_def probing_for_def filter_empty_conv)
qed

lemma audio_inv_clear:
  "audio_inv s \<Longrightarrow> probing s = [] \<Longrightarrow> audio_inv (clear_audio_tasks s)"
  by (simp add: audio_inv_def clear_audio_tasks_def)

lemma audio_inv_quiet:
  "audio_inv s \<Longrightarrow> audio_quiet s es \<Longrightarrow> audio_inv (foldl audio_step s es)"
proof (induction es arbitrary: s)
  case Nil
  then show ?case by simp
next
  case (Cons e es)
  show ?case
  proof (cases e)
    case (AudioRequest k force)
    then have nf: "\<not> force" and q: "audio_quiet (snd (audio_request k False s)) es"
      using Cons.prems(2) by auto
    have "audio_inv (snd (audio_request k False s))"
      using Cons.prems(1) by (rule audio_inv_request)
    then have "audio_inv (foldl audio_step (snd (audio_request k False s)) es)"
      using q by (rule Cons.IH)
    then show ?thesis using AudioRequest nf by simp
  next
    case (AudioBodyReturns t x)
    then show ?thesis
      using Cons.prems Cons.IH [of "audio_body_returns t x s"]
      by (simp add: audio_inv_body_returns)
  next
    case (AudioSettled t)
    then show ?thesis
      using Cons.prems Cons.IH [of "audio_settles t s"] by (simp add: audio_inv_settles)
  next
    case AudioCacheCleared
    then show ?thesis
      using Cons.prems Cons.IH [of "clear_audio_tasks s"] by (simp add: audio_inv_clear)
  qed
qed

text \<open>
  Claim C1, as amended. Take any sequence of thumbnail requests, settlings and cache
  clearings in which the cache is cleared only while no generation is running. At most one
  thumbnail computation per key is in flight; a request that misses the cache on disk
  while a computation for its key is in flight awaits that computation and changes nothing,
  so no second computation starts; and when the computation settles, the entry of its key
  is removed and nothing is in flight for the key. Take any sequence of audio requests,
  returning task bodies, settling extractions and cache clearings in which no request
  forces a refresh and the cache is cleared only while no task is probing. At most one
  audio task per key is registered and probing; a request made while there is one awaits
  it and changes nothing; and when the body of the task returns, the entry of its key is
  removed.
\<close>

theorem single_flight_in_quiet_runs:
  assumes "thumb_quiet no_flight tes" and "audio_quiet no_audio_flight aes"
  shows "length (in_flight k (run_thumb tes)) \<le> 1
         \<and> (in_flight k (run_thumb tes) = [t] \<longrightarrow>
              thumb_request (Miss k) (run_thumb tes) = (Awaits t, run_thumb tes)
              \<and> tasks (settle t (run_thumb tes)) k = None
              \<and> in_flight k (settle t (run_thumb tes)) = [])
         \<and> length (probing_for k (run_audio aes)) \<le> 1
         \<and> (probing_for k (run_audio aes) = [u] \<longrightarrow>
              audio_request k False (run_audio aes) = (Awaits u, run_audio aes)
              \<and> audioExtractTasks (audio_body_returns u x (run_audio aes)) k = None
              \<and> probing_for k (audio_body_returns u x (run_audio aes)) = [])"
proof -
  have it: "flight_inv (run_thumb tes)"
    unfolding run_thumb_def using flight_inv_initial assms(1) by (rule flight_inv_quiet)
  have ia: "audio_inv (run_audio aes)"
    unfolding run_audio_def using audio_inv_initial assms(2) by (rule audio_inv_quiet)
  show ?thesis
    using in_flight_le_one [OF it] probing_le_one [OF ia]
      in_flight_task [OF it] probing_task [OF ia] settle_clears [OF it]
      body_return_clears [OF ia]
    by (simp add: thumb_request_def thumb_task_def audio_request_def)
qed

theorem single_flight_in_quiet_runs_witness:
  "thumb_quiet no_flight
     [ThumbCacheCleared, ThumbRequest (Miss ''k''), ThumbRequest (Miss ''k'')]
   \<and> audio_quiet no_audio_flight
        [AudioCacheCleared, AudioRequest ''k'' False, AudioRequest ''k'' False]
   \<and> in_flight ''k''
        (run_thumb [ThumbCacheCleared, ThumbRequest (Miss ''k''), ThumbRequest (Miss ''k'')])
       = [0]
   \<and> thumb_request (Miss ''k'')
        (run_thumb [ThumbCacheCleared, ThumbRequest (Miss ''k''), ThumbRequest (Miss ''k'')])
       = (Awaits 0,
          run_thumb [ThumbCacheCleared, ThumbRequest (Miss ''k''), ThumbRequest (Miss ''k'')])
   \<and> in_flight ''k''
        (settle 0
           (run_thumb [ThumbCacheCleared, ThumbRequest (Miss ''k''), ThumbRequest (Miss ''k'')]))
       = []
   \<and> probing_for ''k''
        (run_audio [AudioCacheCleared, AudioRequest ''k'' False, AudioRequest ''k'' False])
       = [0]
   \<and> audio_request ''k'' False
        (run_audio [AudioCacheCleared, AudioRequest ''k'' False, AudioRequest ''k'' False])
       = (Awaits 0,
          run_audio [AudioCacheCleared, AudioRequest ''k'' False, AudioRequest ''k'' False])
   \<and> audioExtractTasks
        (audio_body_returns 0 True
           (run_audio [AudioCacheCleared, AudioRequest ''k'' False, AudioRequest ''k'' False]))
        ''k'' = None"
  using single_flight_in_quiet_runs
    [of "[ThumbCacheCleared, ThumbRequest (Miss ''k''), ThumbRequest (Miss ''k'')]"
        "[AudioCacheCleared, AudioRequest ''k'' False, AudioRequest ''k'' False]" "''k''" 0 0 True]
  by (simp add: run_thumb_def run_audio_def no_flight_def no_audio_flight_def thumb_request_def
      thumb_task_def audio_request_def start_task_def in_flight_def probing_for_def settle_def
      audio_body_returns_def clear_tasks_def clear_audio_tasks_def)

text \<open>
  The claim as stated fails in two ways. A request that forces a refresh deletes the
  entry of the key and starts a second audio computation while the first is still running.
  Clearing the cache empties both maps while computations run, so the next request for
  the same key starts a second thumbnail generation, or a second audio task.
\<close>

theorem second_computation_counterexample:
  "audio_in_flight ''/tmp/vcm-audio/clip-k''
     (run_audio [AudioRequest ''/tmp/vcm-audio/clip-k'' False,
                 AudioRequest ''/tmp/vcm-audio/clip-k'' True]) = [0, 1]
   \<and> in_flight ''/tmp/vcm-thumbs/clip-k.jpg''
       (run_thumb [ThumbRequest (Miss ''/tmp/vcm-thumbs/clip-k.jpg''), ThumbCacheCleared,
                   ThumbRequest (Miss ''/tmp/vcm-thumbs/clip-k.jpg'')]) = [0, 1]
   \<and> probing_for ''/tmp/vcm-audio/clip-k''
       (run_audio [AudioRequest ''/tmp/vcm-audio/clip-k'' False, AudioCacheCleared,
                   AudioRequest ''/tmp/vcm-audio/clip-k'' False]) = [0, 1]"
  by (simp add: run_audio_def run_thumb_def no_audio_flight_def no_flight_def audio_request_def
      audio_in_flight_def in_flight_def probing_for_def thumb_request_def thumb_task_def
      start_task_def clear_tasks_def clear_audio_tasks_def)

text \<open>
  The entry of an audio task is gone once its body has returned, so a request made while
  the extraction runs starts another computation for the same key.
\<close>

lemma second_extraction_while_first_runs:
  "audio_in_flight ''/tmp/vcm-audio/clip-k''
     (run_audio [AudioRequest ''/tmp/vcm-audio/clip-k'' False, AudioBodyReturns 0 True,
                 AudioRequest ''/tmp/vcm-audio/clip-k'' False]) = [1, 0]"
  by (simp add: run_audio_def no_audio_flight_def audio_request_def audio_in_flight_def
      audio_body_returns_def)

section \<open>Properties of the audio extraction\<close>

lemma settled_stays:
  "settled x \<noteq> None \<Longrightarrow> settled (track_step N expected x e) \<noteq> None"
  by (cases e)
     (auto simp: on_end_def on_error_def engine_wrote_def settle_with_def Let_def
           split: option.splits)

lemma error_settles_step:
  "(hasError x \<longrightarrow> settled x \<noteq> None) \<Longrightarrow>
   hasError (track_step N expected x e) \<longrightarrow> settled (track_step N expected x e) \<noteq> None"
  by (cases e)
     (auto simp: on_end_def on_error_def engine_wrote_def settle_with_def Let_def
           split: option.splits)

lemma error_settles:
  "hasError (extract_tracks N expected locked0 d evs)
   \<longrightarrow> settled (extract_tracks N expected locked0 d evs) \<noteq> None"
proof (induction evs rule: rev_induct)
  case Nil
  then show ?case by (simp add: extract_tracks_def begin_extraction_def)
next
  case (snoc e evs)
  then show ?case
    using error_settles_step [of "extract_tracks N expected locked0 d evs" N expected e]
    by (simp add: extract_tracks_def)
qed

lemma completed_counts:
  "completed (extract_tracks N expected locked0 d evs) = length (filter is_end evs)"
proof (induction evs rule: rev_induct)
  case Nil
  then show ?case by (simp add: extract_tracks_def begin_extraction_def)
next
  case (snoc e evs)
  then show ?case
    by (cases e)
       (auto simp: extract_tracks_def on_end_def on_error_def engine_wrote_def settle_with_def
             Let_def split: option.splits if_splits)
qed

lemma hasError_iff_error_event:
  "hasError (extract_tracks N expected locked0 d evs) = list_ex is_error evs"
proof (induction evs rule: rev_induct)
  case Nil
  then show ?case by (simp add: extract_tracks_def begin_extraction_def)
next
  case (snoc e evs)
  then show ?case
    by (cases e)
       (auto simp: extract_tracks_def on_end_def on_error_def engine_wrote_def settle_with_def
             Let_def split: option.splits if_splits)
qed

text \<open>
  Claim C5, as amended. Let the promise of an extraction be pending after the events
  \<open>pre\<close>; then no track has failed so far. The next event decides as follows. The \<^verbatim>\<open>error\<close>
  of a track rejects the promise with the error that names the track and its message, and
  the directory keeps only the files that cannot be unlinked. An \<^verbatim>\<open>end\<close> that is not the last
  expected one leaves the promise pending. The last expected \<^verbatim>\<open>end\<close> resolves the promise
  with the expected outputs when each of them exists with a size above zero, and the
  directory is untouched; otherwise it rejects the promise with the error for invalid
  files, which names no track, and the directory keeps only the files that cannot be
  unlinked. Clearing the cache leaves the promise pending.
\<close>

theorem extraction_all_or_nothing:
  assumes "settled (extract_tracks N expected locked0 d pre) = None"
    and "X = extract_tracks N expected locked0 d pre"
    and "X' = extract_tracks N expected locked0 d (pre @ [e])"
  shows "\<not> list_ex is_error pre
         \<and> (case e of
              TrackError i msg szo locked \<Rightarrow>
                settled X' = Some (Inl (ExtractionFailed i msg))
                \<and> cache X' = (\<lambda>f. if f \<in> set locked then cache (engine_wrote N i szo X) f
                                    else None)
            | TrackEnd i szo locked \<Rightarrow>
                if Suc (length (filter is_end pre)) \<noteq> expected
                then settled X' = None \<and> cache X' = cache (engine_wrote N i szo X)
                else if list_all (valid_output (cache (engine_wrote N i szo X)))
                          (outputs N expected)
                then settled X' = Some (Inr (outputs N expected))
                     \<and> cache X' = cache (engine_wrote N i szo X)
                else settled X' = Some (Inl InvalidFiles)
                     \<and> cache X' = (\<lambda>f. if f \<in> set locked
                                          then cache (engine_wrote N i szo X) f else None)
            | CacheCleared locked \<Rightarrow>
                settled X' = None
                \<and> cache X' = (\<lambda>f. if f \<in> set locked then cache X f else None))"
proof -
  have ne: "\<not> hasError X"
    using assms(1,2) error_settles [of N expected locked0 d pre] by simp
  then have noerr: "\<not> list_ex is_error pre"
    using assms(2) hasError_iff_error_event [of N expected locked0 d pre] by simp
  have cnt: "completed X = length (filter is_end pre)"
    using assms(2) completed_counts [of N expected locked0 d pre] by simp
  have un: "settled X = None" using assms(1,2) by simp
  have step: "X' = track_step N expected X e"
    using assms(2,3) by (simp add: extract_tracks_def)
  show ?thesis
  proof (cases e)
    case (TrackEnd i szo locked)
    then show ?thesis
      using ne noerr cnt un step
      by (auto simp: on_end_def engine_wrote_def settle_with_def cleanupCache_def Let_def
            split: option.splits)
  next
    case (TrackError i msg szo locked)
    then show ?thesis
      using ne noerr cnt un step
      by (auto simp: on_error_def engine_wrote_def settle_with_def cleanupCache_def
            split: option.splits)
  next
    case (CacheCleared locked)
    then show ?thesis
      using noerr un step by (simp add: cleanupCache_def)
  qed
qed

theorem extraction_all_or_nothing_witness:
  "settled (extract_tracks stub_node 2 [] Map.empty [TrackEnd 1 (Some 7) []]) = None
   \<and> settled (extract_tracks stub_node 2 [] Map.empty
                ([TrackEnd 1 (Some 7) []] @ [TrackError 0 ''timeout'' (Some 3) []]))
       = Some (Inl (ExtractionFailed 0 ''timeout''))
   \<and> cache (extract_tracks stub_node 2 [] Map.empty
                ([TrackEnd 1 (Some 7) []] @ [TrackError 0 ''timeout'' (Some 3) []]))
       = (\<lambda>f. None)"
  using extraction_all_or_nothing [of stub_node 2 "[]" Map.empty "[TrackEnd 1 (Some 7) []]"
      "extract_tracks stub_node 2 [] Map.empty [TrackEnd 1 (Some 7) []]"
      "extract_tracks stub_node 2 [] Map.empty
         ([TrackEnd 1 (Some 7) []] @ [TrackError 0 ''timeout'' (Some 3) []])"
      "TrackError 0 ''timeout'' (Some 3) []"]
  by (simp add: extract_tracks_def begin_extraction_def on_end_def on_error_def
      engine_wrote_def settle_with_def cleanupCache_def)

text \<open>
  The claim as stated says that every failure names the failing track. With one track whose
  output is empty, the call fails with the error for invalid files.
\<close>

theorem invalid_output_error_names_no_track_counterexample:
  "audio_task stub_node Map.empty (Inr 1) False [] [TrackEnd 0 (Some 0) []]
     = (Some (Inl InvalidFiles), Map.empty)"
  by (simp add: audio_task_def checkExisting_def outputs_def valid_output_def track_file_def
      stub_node_def show_real_def extract_tracks_def begin_extraction_def on_end_def
      engine_wrote_def settle_with_def cleanupCache_def)

text \<open>
  The directory is cleaned when the promise is rejected, not later: a track that ends after
  another one failed leaves its output in the directory. And a file whose unlink throws
  stays in the directory.
\<close>

lemma output_of_a_later_track_survives:
  "audio_task stub_node Map.empty (Inr 2) False []
     [TrackError 1 ''boom'' None [], TrackEnd 0 (Some 10) []]
     = (Some (Inl (ExtractionFailed 1 ''boom'')), [''audio_track_0.wav'' \<mapsto> 10])"
  by (simp add: audio_task_def checkExisting_def outputs_def valid_output_def track_file_def
      stub_node_def show_real_def extract_tracks_def begin_extraction_def on_end_def on_error_def
      engine_wrote_def settle_with_def cleanupCache_def upt_rec)

lemma file_that_cannot_be_unlinked_survives:
  "fst (audio_task stub_node Map.empty (Inr 1) False []
          [TrackError 0 ''boom'' (Some 3) [''audio_track_0.wav'']])
     = Some (Inl (ExtractionFailed 0 ''boom''))
   \<and> snd (audio_task stub_node Map.empty (Inr 1) False []
          [TrackError 0 ''boom'' (Some 3) [''audio_track_0.wav'']]) ''audio_track_0.wav''
     = Some 3"
  by (simp add: audio_task_def checkExisting_def outputs_def valid_output_def track_file_def
      stub_node_def show_real_def extract_tracks_def begin_extraction_def on_end_def on_error_def
      engine_wrote_def settle_with_def cleanupCache_def upt_rec)

section \<open>Properties of the size-targeted export\<close>

declare retry_two_pass.simps [simp del]

declare retry_single_pass.simps [simp del]

text \<open>The reduced rate is the rate times 0.80 or 0.85, rounded down, and at least 100.\<close>

lemma reduce80_floor: "reduce80 x = nat (max 100 \<lfloor>real x * 0.80\<rfloor>)"
proof -
  have "real x * 0.80 = real (x * 80) / real 100" by simp
  then have "\<lfloor>real x * 0.80\<rfloor> = int (x * 80 div 100)"
    by (simp only: floor_divide_of_nat_eq)
  then show ?thesis by (simp add: reduce80_def)
qed

lemma reduce85_floor: "reduce85 x = nat (max 100 \<lfloor>real x * 0.85\<rfloor>)"
proof -
  have "real x * 0.85 = real (x * 85) / real 100" by simp
  then have "\<lfloor>real x * 0.85\<rfloor> = int (x * 85 div 100)"
    by (simp only: floor_divide_of_nat_eq)
  then show ?thesis by (simp add: reduce85_def)
qed

lemma ladder_shift:
  "concat (map g [1..<Suc (Suc n)]) = g 1 @ concat (map (\<lambda>i. g (Suc i)) [1..<Suc n])"
proof -
  have "[1..<Suc (Suc n)] = 1 # map Suc [1..<Suc n]"
    by (simp add: map_Suc_upt upt_conv_Cons del: upt_Suc)
  then show ?thesis by (simp add: comp_def del: upt_Suc)
qed

text \<open>
  What any loop of the shape of the two retry loops does, started at \<open>a\<close> attempts with an
  output of size \<open>sz\<close>: it makes \<open>n\<close> rounds, each one only after an output above the
  target, and stops at the first output that is not, or after the third attempt.
\<close>

lemma rounds_spec:
  fixes R :: "nat \<Rightarrow> nat \<Rightarrow> nat \<Rightarrow> action list \<Rightarrow> export_result \<times> action list"
    and enc :: encoder and mk :: "nat \<Rightarrow> action" and f :: "nat \<Rightarrow> nat"
    and tb :: real and p :: string
  defines "over \<equiv> (\<lambda>i a. \<exists>s. enc i a = Done (Some s) \<and> tb < real s)"
    and "rung \<equiv> (\<lambda>v i. [Unlink p, mk ((f ^^ i) v)])"
  assumes unfold: "\<And>v a sz acts. R v a sz acts =
      (if tb < real sz \<and> a < 3
       then (case enc (a + 1) (mk (f v)) of
               Cancel \<Rightarrow> (Canceled, acts @ [Unlink p, mk (f v)])
             | Fail e \<Rightarrow> (Path p, acts @ [Unlink p, mk (f v)])
             | Done None \<Rightarrow> (Path p, acts @ [Unlink p, mk (f v)])
             | Done (Some sz') \<Rightarrow> R (f v) (a + 1) sz' (acts @ [Unlink p, mk (f v)]))
       else (Path p, acts))"
  shows "a \<le> 3 \<Longrightarrow>
         \<exists>n. n \<le> 3 - a
           \<and> snd (R v a sz acts) = acts @ concat (map (rung v) [1..<Suc n])
           \<and> (0 < n \<longrightarrow> tb < real sz)
           \<and> (\<forall>i. 0 < i \<and> i < n \<longrightarrow> over (a + i) (mk ((f ^^ i) v)))
           \<and> (n < 3 - a \<longrightarrow>
                (if n = 0 then \<not> tb < real sz else \<not> over (a + n) (mk ((f ^^ n) v))))
           \<and> fst (R v a sz acts) =
               (if n = 0 then Path p
                else (case enc (a + n) (mk ((f ^^ n) v)) of
                        Cancel \<Rightarrow> Canceled | Fail e \<Rightarrow> Path p | Done z \<Rightarrow> Path p))"
proof (induction k \<equiv> "3 - a" arbitrary: a v sz acts)
  case 0
  then have full: "\<not> a < 3" by linarith
  then have "R v a sz acts = (Path p, acts)" by (subst unfold) simp
  then show ?case using full by (intro exI [of _ 0]) simp
next
  case (Suc k)
  then have lt: "a < 3" by linarith
  show ?case
  proof (cases "tb < real sz")
    case False
    then have "R v a sz acts = (Path p, acts)" by (subst unfold) simp
    then show ?thesis using False by (intro exI [of _ 0]) simp
  next
    case True
    let ?m = "mk (f v)"
    let ?acts = "acts @ [Unlink p, ?m]"
    have room: "Suc 0 \<le> 3 - a" using lt by linarith
    have go: "R v a sz acts =
        (case enc (a + 1) ?m of
           Cancel \<Rightarrow> (Canceled, ?acts)
         | Fail e \<Rightarrow> (Path p, ?acts)
         | Done None \<Rightarrow> (Path p, ?acts)
         | Done (Some sz') \<Rightarrow> R (f v) (a + 1) sz' ?acts)"
      using True lt by (subst unfold) simp
    show ?thesis
    proof (cases "enc (a + 1) ?m")
      case Cancel
      then have "R v a sz acts = (Canceled, ?acts)" using go by simp
      then show ?thesis
        using True Cancel room by (intro exI [of _ "Suc 0"]) (simp add: over_def rung_def)
    next
      case (Fail e)
      then have "R v a sz acts = (Path p, ?acts)" using go by simp
      then show ?thesis
        using True Fail room by (intro exI [of _ "Suc 0"]) (simp add: over_def rung_def)
    next
      case (Done szo)
      show ?thesis
      proof (cases szo)
        case None
        then have "R v a sz acts = (Path p, ?acts)" using go Done by simp
        then show ?thesis
          using True Done None room
          by (intro exI [of _ "Suc 0"]) (simp add: over_def rung_def)
      next
        case (Some sz')
        have eq: "R v a sz acts = R (f v) (a + 1) sz' ?acts" using go Done Some by simp
        have k: "k = 3 - (a + 1)" using Suc.hyps(2) by linarith
        have le: "a + 1 \<le> 3" using lt by linarith
        from Suc.hyps(1) [OF k le, of "f v" sz' ?acts]
        obtain n where conj:
          "n \<le> 3 - (a + 1)
           \<and> snd (R (f v) (a + 1) sz' ?acts) = ?acts @ concat (map (rung (f v)) [1..<Suc n])
           \<and> (0 < n \<longrightarrow> tb < real sz')
           \<and> (\<forall>i. 0 < i \<and> i < n \<longrightarrow> over (a + 1 + i) (mk ((f ^^ i) (f v))))
           \<and> (n < 3 - (a + 1) \<longrightarrow>
                (if n = 0 then \<not> tb < real sz'
                 else \<not> over (a + 1 + n) (mk ((f ^^ n) (f v)))))
           \<and> fst (R (f v) (a + 1) sz' ?acts) =
               (if n = 0 then Path p
                else (case enc (a + 1 + n) (mk ((f ^^ n) (f v))) of
                        Cancel \<Rightarrow> Canceled | Fail e \<Rightarrow> Path p | Done z \<Rightarrow> Path p))"
          ..
        note n = conj [THEN conjunct1]
        note sn = conj [THEN conjunct2, THEN conjunct1]
        note pos = conj [THEN conjunct2, THEN conjunct2, THEN conjunct1]
        note mid = conj [THEN conjunct2, THEN conjunct2, THEN conjunct2, THEN conjunct1]
        note stop = conj [THEN conjunct2, THEN conjunct2, THEN conjunct2, THEN conjunct2,
                          THEN conjunct1]
        note fs = conj [THEN conjunct2, THEN conjunct2, THEN conjunct2, THEN conjunct2,
                        THEN conjunct2]
        have sh: "\<And>i. (f ^^ i) (f v) = (f ^^ Suc i) v" by (simp add: funpow_swap1)
        have first: "enc (a + Suc 0) (mk ((f ^^ Suc 0) v)) = Done (Some sz')"
          using Done Some by simp
        have c1: "Suc n \<le> 3 - a" using n lt by linarith
        have c2: "snd (R v a sz acts) = acts @ concat (map (rung v) [1..<Suc (Suc n)])"
        proof -
          have "rung (f v) = (\<lambda>i. rung v (Suc i))" by (simp add: rung_def sh)
          moreover have "rung v 1 = [Unlink p, ?m]" by (simp add: rung_def)
          ultimately show ?thesis using eq sn by (simp only: ladder_shift) simp
        qed
        have c4: "\<forall>i. 0 < i \<and> i < Suc n \<longrightarrow> over (a + i) (mk ((f ^^ i) v))"
        proof (intro allI impI)
          fix i assume i: "0 < i \<and> i < Suc n"
          show "over (a + i) (mk ((f ^^ i) v))"
          proof (cases "i = Suc 0")
            case True
            have "0 < n" using i True by simp
            then have "tb < real sz'" using pos by simp
            then show ?thesis using first True by (auto simp: over_def)
          next
            case False
            then obtain j where j: "i = Suc j" and "0 < j \<and> j < n"
              using i by (cases i) auto
            then have "over (a + 1 + j) (mk ((f ^^ j) (f v)))" using mid by blast
            then show ?thesis using j by (simp add: sh)
          qed
        qed
        have c5: "Suc n < 3 - a \<longrightarrow> \<not> over (a + Suc n) (mk ((f ^^ Suc n) v))"
        proof
          assume "Suc n < 3 - a"
          then have "n < 3 - (a + 1)" by linarith
          then have s: "if n = 0 then \<not> tb < real sz'
                        else \<not> over (a + 1 + n) (mk ((f ^^ n) (f v)))"
            using stop by blast
          show "\<not> over (a + Suc n) (mk ((f ^^ Suc n) v))"
          proof (cases "n = 0")
            case True
            then show ?thesis using s first by (auto simp: over_def)
          next
            case False
            then show ?thesis using s by (simp add: sh)
          qed
        qed
        have c6: "fst (R v a sz acts) =
              (case enc (a + Suc n) (mk ((f ^^ Suc n) v)) of
                 Cancel \<Rightarrow> Canceled | Fail e \<Rightarrow> Path p | Done z \<Rightarrow> Path p)"
        proof (cases "n = 0")
          case True
          then show ?thesis using eq fs first by simp
        next
          case False
          then show ?thesis using eq fs by (simp add: sh)
        qed
        show ?thesis
          using c1 c2 True c4 c5 c6 by (intro exI [of _ "Suc n"]) simp
      qed
    qed
  qed
qed

lemma two_pass_unfold:
  "retry_two_pass enc p tb v a sz acts =
     (if tb < real sz \<and> a < 3
      then (case enc (a + 1) (RunTwoPass (reduce80 v)) of
              Cancel \<Rightarrow> (Canceled, acts @ [Unlink p, RunTwoPass (reduce80 v)])
            | Fail e \<Rightarrow> (Path p, acts @ [Unlink p, RunTwoPass (reduce80 v)])
            | Done None \<Rightarrow> (Path p, acts @ [Unlink p, RunTwoPass (reduce80 v)])
            | Done (Some sz') \<Rightarrow>
                retry_two_pass enc p tb (reduce80 v) (a + 1) sz'
                  (acts @ [Unlink p, RunTwoPass (reduce80 v)]))
      else (Path p, acts))"
  by (subst retry_two_pass.simps) (simp add: maxAttempts_def)

lemma single_pass_unfold:
  "retry_single_pass enc p tb v False a sz acts =
     (if tb < real sz \<and> a < 3
      then (case enc (a + 1) (RunOnce (reduce85 v) False) of
              Cancel \<Rightarrow> (Canceled, acts @ [Unlink p, RunOnce (reduce85 v) False])
            | Fail e \<Rightarrow> (Path p, acts @ [Unlink p, RunOnce (reduce85 v) False])
            | Done None \<Rightarrow> (Path p, acts @ [Unlink p, RunOnce (reduce85 v) False])
            | Done (Some sz') \<Rightarrow>
                retry_single_pass enc p tb (reduce85 v) False (a + 1) sz'
                  (acts @ [Unlink p, RunOnce (reduce85 v) False]))
      else (Path p, acts))"
  by (subst retry_single_pass.simps) (simp add: maxAttempts_def)

lemma constant_quality_left_at_first_retry:
  "retry_single_pass enc p tb v True 0 sz acts = retry_single_pass enc p tb v False 0 sz acts"
  by (simp add: retry_single_pass.simps [of enc p tb v True 0 sz acts]
        retry_single_pass.simps [of enc p tb v False 0 sz acts])

text \<open>
  Claim C2. Let \<open>f\<close> be the reduction of the tier: the rate times 0.80 (high) or 0.85 (fast,
  standard), rounded down, and not below 100. Let \<open>act i\<close> be the encode of attempt \<open>i\<close>: two
  passes for the high tier, one pass otherwise, at the rate \<open>f\<close> applied \<open>i\<close> times to the
  first rate, in constant-quality mode only for the first encode of the standard tier. Then
  there is a number \<open>n\<close> of retries, at most 3, such that: the log is the first encode
  followed by \<open>n\<close> rounds of deleting the output and making the encode of that round; every
  encode before the last produced an output above the target; unless \<open>n\<close> is 3, the last
  encode did not; and the handler resolves with the output path, except that it resolves as
  canceled when the last encode was canceled and is rejected when the first encode failed.
  So when every output is above the target, three retries are made and the path of the
  last output is returned.
\<close>

theorem size_targeting_retry_loop:
  assumes "export_compressed enc q p tb v = (r, acts)"
    and "f = (\<lambda>x. nat (max 100 \<lfloor>real x * (if q = High then 0.80 else 0.85)\<rfloor>))"
    and "act = (\<lambda>i. if q = High then RunTwoPass ((f ^^ i) v)
                     else RunOnce ((f ^^ i) v) (i = 0 \<and> q = Standard))"
  shows "\<exists>n. n \<le> 3
           \<and> acts = act 0 # concat (map (\<lambda>i. [Unlink p, act i]) [1..<Suc n])
           \<and> (\<forall>i<n. \<exists>sz. enc i (act i) = Done (Some sz) \<and> tb < real sz)
           \<and> (n < 3 \<longrightarrow> \<not> (\<exists>sz. enc n (act n) = Done (Some sz) \<and> tb < real sz))
           \<and> r = (case enc n (act n) of
                    Cancel \<Rightarrow> Inr Canceled
                  | Fail e \<Rightarrow> if n = 0 then Inl e else Inr (Path p)
                  | Done z \<Rightarrow> Inr (Path p))"
proof -
  define mk where "mk = (if q = High then RunTwoPass else (\<lambda>x. RunOnce x False))"
  define R where "R = (\<lambda>v a sz acts.
      if q = High then retry_two_pass enc p tb v a sz acts
      else retry_single_pass enc p tb v False a sz acts)"
  have fq: "f = (if q = High then reduce80 else reduce85)"
    using assms(2) by (auto simp: fun_eq_iff reduce80_floor reduce85_floor)
  have a0: "act 0 = first_action q v"
    by (simp add: assms(3) first_action_def)
  have acti: "\<And>i. 0 < i \<Longrightarrow> act i = mk ((f ^^ i) v)"
    by (simp add: assms(3) mk_def)
  have unf: "\<And>v a sz acts. R v a sz acts =
      (if tb < real sz \<and> a < 3
       then (case enc (a + 1) (mk (f v)) of
               Cancel \<Rightarrow> (Canceled, acts @ [Unlink p, mk (f v)])
             | Fail e \<Rightarrow> (Path p, acts @ [Unlink p, mk (f v)])
             | Done None \<Rightarrow> (Path p, acts @ [Unlink p, mk (f v)])
             | Done (Some sz') \<Rightarrow> R (f v) (a + 1) sz' (acts @ [Unlink p, mk (f v)]))
       else (Path p, acts))"
  proof -
    fix v a sz acts
    show "R v a sz acts =
      (if tb < real sz \<and> a < 3
       then (case enc (a + 1) (mk (f v)) of
               Cancel \<Rightarrow> (Canceled, acts @ [Unlink p, mk (f v)])
             | Fail e \<Rightarrow> (Path p, acts @ [Unlink p, mk (f v)])
             | Done None \<Rightarrow> (Path p, acts @ [Unlink p, mk (f v)])
             | Done (Some sz') \<Rightarrow> R (f v) (a + 1) sz' (acts @ [Unlink p, mk (f v)]))
       else (Path p, acts))"
    proof (cases "q = High")
      case True
      then have e: "R = retry_two_pass enc p tb" "mk = RunTwoPass" "f = reduce80"
        by (simp_all add: R_def mk_def fq fun_eq_iff)
      show ?thesis unfolding e by (rule two_pass_unfold)
    next
      case False
      then have e: "R = (\<lambda>v. retry_single_pass enc p tb v False)"
        "mk = (\<lambda>x. RunOnce x False)" "f = reduce85"
        by (simp_all add: R_def mk_def fq fun_eq_iff)
      show ?thesis unfolding e by (rule single_pass_unfold)
    qed
  qed
  have run: "r = Inr (fst (R v 0 sz [act 0])) \<and> acts = snd (R v 0 sz [act 0])"
    if "enc 0 (act 0) = Done (Some sz)" for sz
    using that assms(1) a0
    by (cases q)
       (auto simp: export_compressed_def R_def constant_quality_left_at_first_retry)
  show ?thesis
  proof (cases "enc 0 (act 0)")
    case Cancel
    then have "r = Inr Canceled \<and> acts = [act 0]"
      using assms(1) a0 by (auto simp: export_compressed_def)
    then show ?thesis using Cancel by (intro exI [of _ 0]) simp
  next
    case (Fail e)
    then have "r = Inl e \<and> acts = [act 0]"
      using assms(1) a0 by (auto simp: export_compressed_def)
    then show ?thesis using Fail by (intro exI [of _ 0]) simp
  next
    case (Done szo)
    show ?thesis
    proof (cases szo)
      case None
      then have "r = Inr (Path p) \<and> acts = [act 0]"
        using assms(1) a0 Done by (auto simp: export_compressed_def)
      then show ?thesis using Done None by (intro exI [of _ 0]) simp
    next
      case (Some sz)
      then have d: "enc 0 (act 0) = Done (Some sz)" using Done by simp
      note rn = run [OF d]
      have "(0::nat) \<le> 3" by simp
      from rounds_spec [where R = R and tb = tb and enc = enc and mk = mk and f = f and p = p
          and a = 0 and v = v and sz = sz and acts = "[act 0]", OF unf this]
      obtain n where conj:
        "n \<le> 3 - 0
         \<and> snd (R v 0 sz [act 0])
             = [act 0] @ concat (map (\<lambda>i. [Unlink p, mk ((f ^^ i) v)]) [1..<Suc n])
         \<and> (0 < n \<longrightarrow> tb < real sz)
         \<and> (\<forall>i. 0 < i \<and> i < n \<longrightarrow>
              (\<exists>s. enc (0 + i) (mk ((f ^^ i) v)) = Done (Some s) \<and> tb < real s))
         \<and> (n < 3 - 0 \<longrightarrow>
              (if n = 0 then \<not> tb < real sz
               else \<not> (\<exists>s. enc (0 + n) (mk ((f ^^ n) v)) = Done (Some s) \<and> tb < real s)))
         \<and> fst (R v 0 sz [act 0]) =
             (if n = 0 then Path p
              else (case enc (0 + n) (mk ((f ^^ n) v)) of
                      Cancel \<Rightarrow> Canceled | Fail e \<Rightarrow> Path p | Done z \<Rightarrow> Path p))"
        ..
      note n = conj [THEN conjunct1]
      note sn = conj [THEN conjunct2, THEN conjunct1]
      note pos = conj [THEN conjunct2, THEN conjunct2, THEN conjunct1]
      note mid = conj [THEN conjunct2, THEN conjunct2, THEN conjunct2, THEN conjunct1]
      note stop = conj [THEN conjunct2, THEN conjunct2, THEN conjunct2, THEN conjunct2,
                        THEN conjunct1]
      note fs = conj [THEN conjunct2, THEN conjunct2, THEN conjunct2, THEN conjunct2,
                      THEN conjunct2]
      have c1: "n \<le> 3" using n by simp
      have mc: "map (\<lambda>i. [Unlink p, mk ((f ^^ i) v)]) [1..<Suc n]
              = map (\<lambda>i. [Unlink p, act i]) [1..<Suc n]"
      proof (rule map_cong [OF refl])
        fix x assume "x \<in> set [1..<Suc n]"
        then have "0 < x" by (simp del: upt_Suc)
        then show "[Unlink p, mk ((f ^^ x) v)] = [Unlink p, act x]" by (simp add: acti)
      qed
      have "acts = snd (R v 0 sz [act 0])" using rn by (rule conjunct2)
      then have "acts = [act 0] @ concat (map (\<lambda>i. [Unlink p, act i]) [1..<Suc n])"
        using sn by (simp only: mc)
      then have c2: "acts = act 0 # concat (map (\<lambda>i. [Unlink p, act i]) [1..<Suc n])"
        by (simp del: upt_Suc)
      have c3: "\<forall>i<n. \<exists>sz. enc i (act i) = Done (Some sz) \<and> tb < real sz"
      proof (intro allI impI)
        fix i assume i: "i < n"
        show "\<exists>sz. enc i (act i) = Done (Some sz) \<and> tb < real sz"
        proof (cases "i = 0")
          case True
          then show ?thesis using d pos i by auto
        next
          case False
          then have "\<exists>s. enc (0 + i) (mk ((f ^^ i) v)) = Done (Some s) \<and> tb < real s"
            using mid i by simp
          then show ?thesis using False by (simp add: acti)
        qed
      qed
      have c4: "n < 3 \<longrightarrow> \<not> (\<exists>sz. enc n (act n) = Done (Some sz) \<and> tb < real sz)"
      proof (cases "n = 0")
        case True
        then show ?thesis using stop d by auto
      next
        case False
        then show ?thesis using stop by (simp add: acti)
      qed
      have c5: "r = (case enc n (act n) of
                    Cancel \<Rightarrow> Inr Canceled
                  | Fail e \<Rightarrow> if n = 0 then Inl e else Inr (Path p)
                  | Done z \<Rightarrow> Inr (Path p))"
      proof (cases "n = 0")
        case True
        then show ?thesis using rn fs d by simp
      next
        case False
        then show ?thesis
          using rn fs by (cases "enc n (act n)") (simp_all add: acti)
      qed
      show ?thesis using c1 c2 c3 c4 c5 by (intro exI [of _ n] conjI)
    qed
  qed
qed

lemma always_oversize_run:
  "export_compressed (\<lambda>i a. Done (Some 100)) Standard ''out.mp4'' 50 1000
     = (Inr (Path ''out.mp4''),
        [RunOnce 1000 True,
         Unlink ''out.mp4'', RunOnce 850 False,
         Unlink ''out.mp4'', RunOnce 722 False,
         Unlink ''out.mp4'', RunOnce 613 False])"
  by (simp add: export_compressed_def first_action_def constant_quality_left_at_first_retry
      single_pass_unfold reduce85_def)

theorem size_targeting_retry_loop_witness:
  "export_compressed (\<lambda>i a. Done (Some 100)) Standard ''out.mp4'' 50 1000
     = (Inr (Path ''out.mp4''),
        [RunOnce 1000 True,
         Unlink ''out.mp4'', RunOnce 850 False,
         Unlink ''out.mp4'', RunOnce 722 False,
         Unlink ''out.mp4'', RunOnce 613 False])
   \<and> (\<exists>n. n \<le> 3
         \<and> [RunOnce 1000 True,
         Unlink ''out.mp4'', RunOnce 850 False,
         Unlink ''out.mp4'', RunOnce 722 False,
         Unlink ''out.mp4'', RunOnce 613 False]
             = (\<lambda>i. if Standard = High then RunTwoPass (((\<lambda>x. nat (max 100 \<lfloor>real x * (if Standard = High then 0.80 else 0.85)\<rfloor>)) ^^ i) 1000)
             else RunOnce (((\<lambda>x. nat (max 100 \<lfloor>real x * (if Standard = High then 0.80 else 0.85)\<rfloor>)) ^^ i) 1000) (i = 0 \<and> Standard = Standard)) 0
               # concat (map (\<lambda>i. [Unlink ''out.mp4'', (\<lambda>i. if Standard = High then RunTwoPass (((\<lambda>x. nat (max 100 \<lfloor>real x * (if Standard = High then 0.80 else 0.85)\<rfloor>)) ^^ i) 1000)
             else RunOnce (((\<lambda>x. nat (max 100 \<lfloor>real x * (if Standard = High then 0.80 else 0.85)\<rfloor>)) ^^ i) 1000) (i = 0 \<and> Standard = Standard)) i]) [1..<Suc n])
         \<and> (\<forall>i<n. \<exists>sz. (\<lambda>i a. Done (Some 100)) i ((\<lambda>i. if Standard = High then RunTwoPass (((\<lambda>x. nat (max 100 \<lfloor>real x * (if Standard = High then 0.80 else 0.85)\<rfloor>)) ^^ i) 1000)
             else RunOnce (((\<lambda>x. nat (max 100 \<lfloor>real x * (if Standard = High then 0.80 else 0.85)\<rfloor>)) ^^ i) 1000) (i = 0 \<and> Standard = Standard)) i) = Done (Some sz) \<and> 50 < real sz)
         \<and> (n < 3 \<longrightarrow> \<not> (\<exists>sz. (\<lambda>i a. Done (Some 100)) n ((\<lambda>i. if Standard = High then RunTwoPass (((\<lambda>x. nat (max 100 \<lfloor>real x * (if Standard = High then 0.80 else 0.85)\<rfloor>)) ^^ i) 1000)
             else RunOnce (((\<lambda>x. nat (max 100 \<lfloor>real x * (if Standard = High then 0.80 else 0.85)\<rfloor>)) ^^ i) 1000) (i = 0 \<and> Standard = Standard)) n) = Done (Some sz) \<and> 50 < real sz))
         \<and> Inr (Path ''out.mp4'')
             = (case (\<lambda>i a. Done (Some 100)) n ((\<lambda>i. if Standard = High then RunTwoPass (((\<lambda>x. nat (max 100 \<lfloor>real x * (if Standard = High then 0.80 else 0.85)\<rfloor>)) ^^ i) 1000)
             else RunOnce (((\<lambda>x. nat (max 100 \<lfloor>real x * (if Standard = High then 0.80 else 0.85)\<rfloor>)) ^^ i) 1000) (i = 0 \<and> Standard = Standard)) n) of
                  Cancel \<Rightarrow> Inr Canceled
                | Fail e \<Rightarrow> if n = 0 then Inl e else Inr (Path ''out.mp4'')
                | Done z \<Rightarrow> Inr (Path ''out.mp4'')))"
  by (rule conjI [OF always_oversize_run
        size_targeting_retry_loop [OF always_oversize_run refl refl]])

section \<open>Properties of the two-pass encode\<close>

lemma run_engine_spawned: "spawned (run_engine cmd senderId r s) = spawned s @ [cmd]"
  by (simp add: run_engine_def cancel_export_def Let_def split: option.splits)

text \<open>
  Claim C3, as amended. After a first pass that ended normally, for an output that is not
  AVI: when the statistics log is absent or smaller than 1024 bytes, the second pass is not
  started. The call is rejected when the log is absent; when the log is present and too
  small, the call is rejected unless the sender's cancellation flag is set, in which case it
  resolves with the canceled status.
\<close>

theorem log_checked_before_second_pass:
  assumes "outputExt \<noteq> ''.avi''" and "terminal r1 = Ended"
    and "files (run_engine FirstPass senderId r1 s) (log0 tempLogFile) = logged"
    and "(case logged of None \<Rightarrow> True | Some sz \<Rightarrow> sz < 1024)"
  shows "spawned (snd (encodeTwoPass R senderId outputPath outputExt tempLogFile r1 r2 s))
           = spawned s @ [FirstPass]
         \<and> fst (encodeTwoPass R senderId outputPath outputExt tempLogFile r1 r2 s)
           = (case logged of
                None \<Rightarrow> Inl FirstPassNoLog
              | Some sz \<Rightarrow>
                  if senderId \<in> canceledExports (run_engine FirstPass senderId r1 s)
                  then Inr Canceled
                  else Inl (LogTooSmall sz))"
  using assms
  by (auto simp: encodeTwoPass_def Let_def unregister_def unlink_if_exists_def cleanup_logs_def
      run_engine_spawned split: option.splits)

theorem log_checked_before_second_pass_witness:
  "fst (encodeTwoPass \<lparr>kill_pattern = (\<lambda>m. False), queue_pattern = (\<lambda>m. False),
                        error_pattern = (\<lambda>m. False)\<rparr>
          1 ''out.mp4'' ''.mp4'' ''/tmp/pass.log''
          \<lparr>wrote = [(''/tmp/pass.log-0.log'', 10)], cancel_during = False, terminal = Ended\<rparr>
          \<lparr>wrote = [(''out.mp4'', 5000)], cancel_during = False, terminal = Ended\<rparr>
          \<lparr>files = Map.empty, activeExports = Map.empty, canceledExports = {}, spawned = []\<rparr>)
     = Inl (LogTooSmall 10)
   \<and> spawned (snd (encodeTwoPass \<lparr>kill_pattern = (\<lambda>m. False), queue_pattern = (\<lambda>m. False),
                        error_pattern = (\<lambda>m. False)\<rparr>
          1 ''out.mp4'' ''.mp4'' ''/tmp/pass.log''
          \<lparr>wrote = [(''/tmp/pass.log-0.log'', 10)], cancel_during = False, terminal = Ended\<rparr>
          \<lparr>wrote = [(''out.mp4'', 5000)], cancel_during = False, terminal = Ended\<rparr>
          \<lparr>files = Map.empty, activeExports = Map.empty, canceledExports = {}, spawned = []\<rparr>))
     = [FirstPass]"
  using log_checked_before_second_pass
    [of "''.mp4''"
        "\<lparr>wrote = [(''/tmp/pass.log-0.log'', 10)], cancel_during = False, terminal = Ended\<rparr>"
        1
        "\<lparr>files = Map.empty, activeExports = Map.empty, canceledExports = {}, spawned = []\<rparr>"
        "''/tmp/pass.log''" "Some 10"
        "\<lparr>kill_pattern = (\<lambda>m. False), queue_pattern = (\<lambda>m. False),
          error_pattern = (\<lambda>m. False)\<rparr>"
        "''out.mp4''"
        "\<lparr>wrote = [(''out.mp4'', 5000)], cancel_during = False, terminal = Ended\<rparr>"]
  by (simp add: run_engine_def log0_def)

text \<open>
  The claim as stated says that a log below the minimum size always makes the call fail.
  The cancellation check of line 1271 comes before the size test: with a log of 10 bytes and
  the cancellation flag set during the first pass, the call resolves as canceled.
\<close>

theorem small_log_of_canceled_export_counterexample:
  "fst (encodeTwoPass \<lparr>kill_pattern = (\<lambda>m. False), queue_pattern = (\<lambda>m. False),
                        error_pattern = (\<lambda>m. False)\<rparr>
          1 ''out.mp4'' ''.mp4'' ''/tmp/pass.log''
          \<lparr>wrote = [(''/tmp/pass.log-0.log'', 10)], cancel_during = True, terminal = Ended\<rparr>
          \<lparr>wrote = [(''out.mp4'', 5000)], cancel_during = False, terminal = Ended\<rparr>
          \<lparr>files = Map.empty, activeExports = Map.empty, canceledExports = {}, spawned = []\<rparr>)
     = Inr Canceled"
  by (simp add: encodeTwoPass_def run_engine_def cancel_export_def unregister_def log0_def
      unlink_if_exists_def)

text \<open>The handlers of the second pass remove the three statistics files on each of their paths.\<close>

lemma second_pass_removes_logs:
  "files (snd (second_pass R senderId outputPath tempLogFile r2 s)) tempLogFile = None
   \<and> files (snd (second_pass R senderId outputPath tempLogFile r2 s)) (log0 tempLogFile) = None
   \<and> files (snd (second_pass R senderId outputPath tempLogFile r2 s)) (mbtree tempLogFile) = None"
  by (simp add: second_pass_def cleanup_logs_def unlink_if_exists_def unregister_def uncancel_def
      Let_def split: terminal.splits)

text \<open>
  Claim C6. The claim says that every exit of a two-pass encode removes the three
  statistics files, the cancellation between the passes in particular. The cancellation
  check of lines 1271 to 1276 unlinks only the base file: when the first pass has written
  the two files the encoder produces and the sender's cancellation flag is set, the call
  resolves as canceled and both files are still there.
\<close>

theorem cancel_between_passes_leaves_statistics:
  "fst (encodeTwoPass \<lparr>kill_pattern = (\<lambda>m. False), queue_pattern = (\<lambda>m. False),
                        error_pattern = (\<lambda>m. False)\<rparr>
          1 ''out.mp4'' ''.mp4'' ''/tmp/pass.log''
          \<lparr>wrote = [(''/tmp/pass.log-0.log'', 2000), (''/tmp/pass.log-0.log.mbtree'', 500)],
           cancel_during = True, terminal = Ended\<rparr>
          \<lparr>wrote = [(''out.mp4'', 5000)], cancel_during = False, terminal = Ended\<rparr>
          \<lparr>files = Map.empty, activeExports = Map.empty, canceledExports = {}, spawned = []\<rparr>)
     = Inr Canceled
   \<and> files (snd (encodeTwoPass \<lparr>kill_pattern = (\<lambda>m. False), queue_pattern = (\<lambda>m. False),
                        error_pattern = (\<lambda>m. False)\<rparr>
          1 ''out.mp4'' ''.mp4'' ''/tmp/pass.log''
          \<lparr>wrote = [(''/tmp/pass.log-0.log'', 2000), (''/tmp/pass.log-0.log.mbtree'', 500)],
           cancel_during = True, terminal = Ended\<rparr>
          \<lparr>wrote = [(''out.mp4'', 5000)], cancel_during = False, terminal = Ended\<rparr>
          \<lparr>files = Map.empty, activeExports = Map.empty, canceledExports = {}, spawned = []\<rparr>))
     = [''/tmp/pass.log-0.log'' \<mapsto> 2000, ''/tmp/pass.log-0.log.mbtree'' \<mapsto> 500]"
  by (simp add: encodeTwoPass_def run_engine_def cancel_export_def unregister_def log0_def
      unlink_if_exists_def fun_upd_twist)

section \<open>Properties of the folder watcher\<close>

lemma late_unwatch: "registered w \<Longrightarrow> late w (unwatch_folder w)"
  by (simp add: late_def unwatch_folder_def sent_since_def)

lemma late_raw_event: "late w w' \<Longrightarrow> raw_event N filename w' = w'"
  by (simp add: late_def raw_event_def)

lemma late_unwatch_again: "late w w' \<Longrightarrow> late w (unwatch_folder w')"
  by (simp add: late_def unwatch_folder_def sent_since_def)

lemma late_timer_fires:
  assumes "late w w'"
  shows "late w (timer_fires p szo w')"
proof (cases "p \<in> set (debounceTimers w')")
  case False
  then show ?thesis using assms by (simp add: timer_fires_def)
next
  case True
  then have "p \<in> set (debounceTimers w)" using assms by (auto simp: late_def)
  then show ?thesis
    using assms True
    by (auto simp: late_def timer_fires_def sent_since_def Let_def split: option.splits)
qed

lemma late_stability_checked:
  assumes "late w w'"
  shows "late w (stability_checked p szo w')"
proof (cases "map_of (stabilizing w') p")
  case None
  then show ?thesis using assms by (simp add: stability_checked_def)
next
  case (Some initialSize)
  then have "(p, initialSize) \<in> set (stabilizing w')" by (rule map_of_SomeD)
  then have "p \<in> fst ` set (stabilizing w')" by force
  then have orig: "p \<in> set (debounceTimers w) \<union> fst ` set (stabilizing w)"
    using assms by (auto simp: late_def)
  have sub: "fst ` set (remove1 (p, initialSize) (stabilizing w')) \<subseteq> fst ` set (stabilizing w')"
    using set_remove1_subset [of "(p, initialSize)" "stabilizing w'"] by blast
  show ?thesis
    using assms Some orig sub
    by (auto simp: late_def stability_checked_def sent_since_def Let_def split: option.splits)
qed

lemma late_step: "late w w' \<Longrightarrow> late w (watch_step N w' e)"
  by (cases e)
     (simp_all add: late_raw_event late_timer_fires late_stability_checked late_unwatch_again)

lemma late_run: "late w w' \<Longrightarrow> late w (watch_run N w' evs)"
  unfolding watch_run_def
  by (induction evs rule: rev_induct) (simp_all add: late_step)

text \<open>
  Claim C9, as amended. After \<^verbatim>\<open>unwatch-folder\<close> for a watched root the watcher is closed
  and no longer in \<^verbatim>\<open>folderWatchers\<close>, so a raw event changes nothing and no timer is
  created. The timers pending at that moment are kept: unwatching leaves \<^verbatim>\<open>debounceTimers\<close>
  as it is. Whatever happens next, the pending timers are among those of that moment, and
  every notification sent is for a path that had a timer or a suspended timer callback at
  that moment.
\<close>

theorem unwatch_keeps_pending_timers:
  assumes "registered w"
  shows "closed (watch_run N (unwatch_folder w) evs)
         \<and> \<not> registered (watch_run N (unwatch_folder w) evs)
         \<and> raw_event N filename (watch_run N (unwatch_folder w) evs)
             = watch_run N (unwatch_folder w) evs
         \<and> debounceTimers (unwatch_folder w) = debounceTimers w
         \<and> set (debounceTimers (watch_run N (unwatch_folder w) evs)) \<subseteq> set (debounceTimers w)
         \<and> notified_path ` set (sent_since w (watch_run N (unwatch_folder w) evs))
             \<subseteq> set (debounceTimers w) \<union> fst ` set (stabilizing w)"
proof -
  have l: "late w (watch_run N (unwatch_folder w) evs)"
    using assms by (intro late_run late_unwatch)
  have "debounceTimers (unwatch_folder w) = debounceTimers w"
    by (simp add: unwatch_folder_def)
  then show ?thesis
    using l late_raw_event [OF l] by (simp add: late_def)
qed

theorem unwatch_keeps_pending_timers_witness:
  "registered (watch_run stub_node (watch_folder ''/lib'' []) [RawEvent ''a.mp4''])
   \<and> debounceTimers (unwatch_folder
         (watch_run stub_node (watch_folder ''/lib'' []) [RawEvent ''a.mp4''])) = [''/lib/a.mp4'']
   \<and> closed (watch_run stub_node
         (unwatch_folder (watch_run stub_node (watch_folder ''/lib'' []) [RawEvent ''a.mp4'']))
         [RawEvent ''b.mp4'', TimerFires ''/lib/a.mp4'' (Some 9)])
   \<and> \<not> registered (watch_run stub_node
         (unwatch_folder (watch_run stub_node (watch_folder ''/lib'' []) [RawEvent ''a.mp4'']))
         [RawEvent ''b.mp4'', TimerFires ''/lib/a.mp4'' (Some 9)])
   \<and> debounceTimers (watch_run stub_node
         (unwatch_folder (watch_run stub_node (watch_folder ''/lib'' []) [RawEvent ''a.mp4'']))
         [RawEvent ''b.mp4'', TimerFires ''/lib/a.mp4'' (Some 9)]) = []"
  using unwatch_keeps_pending_timers
    [of "watch_run stub_node (watch_folder ''/lib'' []) [RawEvent ''a.mp4'']" stub_node
        "[RawEvent ''b.mp4'', TimerFires ''/lib/a.mp4'' (Some 9)]" "''c.mp4''"]
  by (simp add: watch_run_def watch_folder_def raw_event_def unwatch_folder_def timer_fires_def
      stub_node_def videoExtensions_def)

text \<open>
  The claim as stated says that the pending timers are dropped and nothing is sent after
  the unwatch. A timer set by an event before the unwatch fires after it and the file is
  announced.
\<close>

theorem notification_after_unwatch_counterexample:
  "debounceTimers (watch_run stub_node (watch_folder ''/lib'' []) [RawEvent ''a.mp4'', Unwatch])
     = [''/lib/a.mp4'']
   \<and> sent (watch_run stub_node (watch_folder ''/lib'' [])
           [RawEvent ''a.mp4'', Unwatch, TimerFires ''/lib/a.mp4'' (Some 9),
            StabilityChecked ''/lib/a.mp4'' (Some 9)])
     = [FileAdded ''/lib/a.mp4'']"
  by (simp add: watch_run_def watch_folder_def raw_event_def unwatch_folder_def timer_fires_def
      stability_checked_def stub_node_def videoExtensions_def)

end
